theory Spec2Isabelle
  imports Main
begin

section \<open>Errors\<close>

text \<open>
  The exceptions the ingestion module raises or lets through. \<open>ValueError\<close> and
  \<open>APIError\<close> carry their message. \<open>ValueError\<close> is what the specification calls
  \<open>InvalidArgument\<close>.
\<close>

datatype error =
    ValueError string
  | APIError string
  | KeyError string
  | TypeError
  | AttributeError
  | JSONDecodeError
  | InvalidJSONError
  | RecursionError

section \<open>Forwarder ID codec\<close>

text \<open>
  Python's \<open>str.split(sep)\<close> for a one-character separator: every occurrence of the
  separator ends a segment, so the result is never empty and has one segment more than
  the string has separators. Strings are byte strings in UTF-8; the byte of \<open>/\<close> occurs in
  no multi-byte sequence, so splitting bytes and splitting code points agree.
\<close>

fun split_on :: "char \<Rightarrow> string \<Rightarrow> string list" where
  "split_on sep [] = [[]]"
| "split_on sep (c # cs) =
     (if c = sep then [] # split_on sep cs
      else (case split_on sep cs of
              [] \<Rightarrow> [[c]]
            | w # ws \<Rightarrow> (c # w) # ws))"

text \<open>\<open>extract_forwarder_id\<close> (log_ingest.py, lines 239-270).\<close>

definition extract_forwarder_id :: "string \<Rightarrow> error + string" where
  "extract_forwarder_id forwarder_name =
     (if forwarder_name = [] then Inl (ValueError ''Forwarder name cannot be empty'')
      else if CHR ''/'' \<notin> set forwarder_name then Inr forwarder_name
      else
        let segments = filter (\<lambda>s. s \<noteq> []) (split_on CHR ''/'' forwarder_name)
        in if segments = []
           then Inl (ValueError (''Invalid forwarder name format: '' @ forwarder_name))
           else Inr (last segments))"

section \<open>JSON values and Python's view of them\<close>

text \<open>
  What \<open>response.json()\<close> yields and what a request body or query parameter holds. A
  dictionary is an association list in insertion order with distinct keys.
\<close>

datatype json =
    JNull
  | JBool bool
  | JNum int
  | JStr string
  | JArr "json list"
  | JObj "(string \<times> json) list"

text \<open>Python's truth value of an object: \<open>if x:\<close>.\<close>

fun truthy :: "json \<Rightarrow> bool" where
  "truthy JNull = False"
| "truthy (JBool b) = b"
| "truthy (JNum n) = (n \<noteq> 0)"
| "truthy (JStr s) = (s \<noteq> [])"
| "truthy (JArr xs) = (xs \<noteq> [])"
| "truthy (JObj kvs) = (kvs \<noteq> [])"

text \<open>\<open>d[k] = v\<close>: an existing key keeps its place, a new key goes last.\<close>

fun dict_set :: "string \<Rightarrow> 'v \<Rightarrow> (string \<times> 'v) list \<Rightarrow> (string \<times> 'v) list" where
  "dict_set k v [] = [(k, v)]"
| "dict_set k v (p # ps) = (if fst p = k then (k, v) # ps else p # dict_set k v ps)"

text \<open>\<open>d.pop(k)\<close> for a key that is present.\<close>

definition dict_pop :: "string \<Rightarrow> (string \<times> 'v) list \<Rightarrow> (string \<times> 'v) list" where
  "dict_pop k kvs = filter (\<lambda>p. fst p \<noteq> k) kvs"

fun starts_with :: "string \<Rightarrow> string \<Rightarrow> bool" where
  "starts_with [] s = True"
| "starts_with (p # ps) [] = False"
| "starts_with (p # ps) (c # cs) = (p = c \<and> starts_with ps cs)"

text \<open>\<open>sub in s\<close> for two strings.\<close>

fun str_contains :: "string \<Rightarrow> string \<Rightarrow> bool" where
  "str_contains sub [] = (sub = [])"
| "str_contains sub (c # cs) = (starts_with sub (c # cs) \<or> str_contains sub cs)"

text \<open>\<open>str.lower()\<close> on the ASCII letters.\<close>

definition str_lower :: "string \<Rightarrow> string" where
  "str_lower s =
     map (\<lambda>c. if (65::nat) \<le> of_char c \<and> of_char c \<le> (90::nat)
              then char_of (of_char c + (32::nat)) else c) s"

text \<open>
  \<open>key in obj and obj[key]\<close> as the source writes it for \<open>nextPageToken\<close> and
  \<open>forwarders\<close>: the value when the key is there and the value is truthy. On a list
  \<open>in\<close> is membership and on a string it is containment, and the subscript that follows
  a positive answer raises \<open>TypeError\<close>; on \<open>None\<close>, a number or a boolean \<open>in\<close> itself
  raises \<open>TypeError\<close>.
\<close>

fun truthy_member :: "string \<Rightarrow> json \<Rightarrow> error + json option" where
  "truthy_member k (JObj kvs) =
     (case map_of kvs k of
        None \<Rightarrow> Inr None
      | Some v \<Rightarrow> if truthy v then Inr (Some v) else Inr None)"
| "truthy_member k (JArr xs) = (if JStr k \<in> set xs then Inl TypeError else Inr None)"
| "truthy_member k (JStr s) = (if str_contains k s then Inl TypeError else Inr None)"
| "truthy_member k JNull = Inl TypeError"
| "truthy_member k (JBool b) = Inl TypeError"
| "truthy_member k (JNum n) = Inl TypeError"

text \<open>
  Iterating over a value (\<open>for x in v\<close>, \<open>list.extend(v)\<close>): the elements of a list, the
  keys of a dictionary, the characters of a string; anything else is not iterable.
\<close>

fun py_iter :: "json \<Rightarrow> error + json list" where
  "py_iter (JArr xs) = Inr xs"
| "py_iter (JObj kvs) = Inr (map (\<lambda>p. JStr (fst p)) kvs)"
| "py_iter (JStr s) = Inr (map (\<lambda>c. JStr [c]) s)"
| "py_iter JNull = Inl TypeError"
| "py_iter (JBool b) = Inl TypeError"
| "py_iter (JNum n) = Inl TypeError"

section \<open>The session and the client\<close>

text \<open>
  A response as the module reads it: the status code, the raw text and the decoded body
  (\<open>None\<close> when the text is not JSON, where \<open>response.json()\<close> raises).
\<close>

record response =
  status_code :: int
  resp_text :: string
  json_body :: "json option"

definition response_json :: "response \<Rightarrow> error + json" where
  "response_json r = (case json_body r of None \<Rightarrow> Inl JSONDecodeError | Some j \<Rightarrow> Inr j)"

text \<open>
  A request is a \<open>session.get(url, params=...)\<close> or a \<open>session.post(url, json=...)\<close>. The
  backend answers a request knowing the requests made before it, so a server with state
  (a paginated listing, a forwarder that exists once created) is a backend.
\<close>

datatype request =
    Get string "(string \<times> json) list"
  | Post string json

type_synonym backend = "request list \<Rightarrow> request \<Rightarrow> response"

text \<open>
  The client: its configuration, the cache slot \<open>_cached_default_forwarder_id\<close>, and the
  requests its session has made so far, oldest first.
\<close>

record client =
  base_url :: string
  instance_id :: string
  project_id :: string
  region :: string
  customer_id :: string
  default_forwarder_display_name :: string
  cached_default_forwarder_id :: "string option"
  calls :: "request list"

definition session_get ::
  "backend \<Rightarrow> client \<Rightarrow> string \<Rightarrow> (string \<times> json) list \<Rightarrow> response \<times> client" where
  "session_get srv c url params =
     (srv (calls c) (Get url params), c\<lparr>calls := calls c @ [Get url params]\<rparr>)"

definition session_post :: "backend \<Rightarrow> client \<Rightarrow> string \<Rightarrow> json \<Rightarrow> response \<times> client" where
  "session_post srv c url payload =
     (srv (calls c) (Post url payload), c\<lparr>calls := calls c @ [Post url payload]\<rparr>)"

section \<open>Forwarder directory\<close>

definition forwarders_url :: "client \<Rightarrow> string" where
  "forwarders_url c = base_url c @ ''/'' @ instance_id c @ ''/forwarders''"

text \<open>\<open>create_forwarder\<close> (lines 31-75). \<open>metadata or {}\<close> is \<open>or_empty_dict\<close>.\<close>

definition or_empty_dict :: "json option \<Rightarrow> json" where
  "or_empty_dict metadata =
     (case metadata of None \<Rightarrow> JObj [] | Some m \<Rightarrow> if truthy m then m else JObj [])"

definition create_payload :: "string \<Rightarrow> json option \<Rightarrow> bool \<Rightarrow> bool \<Rightarrow> json" where
  "create_payload display_name metadata upload_compression enable_server =
     JObj [(''displayName'', JStr display_name),
           (''config'', JObj [(''uploadCompression'', JBool upload_compression),
                              (''metadata'', or_empty_dict metadata),
                              (''serverSettings'',
                                 JObj [(''enabled'', JBool enable_server),
                                       (''httpSettings'', JObj [(''routeSettings'', JObj [])])])])]"

definition create_forwarder ::
  "backend \<Rightarrow> client \<Rightarrow> string \<Rightarrow> json option \<Rightarrow> bool \<Rightarrow> bool \<Rightarrow> (error + json) \<times> client" where
  "create_forwarder srv c display_name metadata upload_compression enable_server =
     (case session_post srv c (forwarders_url c)
             (create_payload display_name metadata upload_compression enable_server) of
        (response, c1) \<Rightarrow>
          if status_code response \<noteq> 200
          then (Inl (APIError (''Failed to create forwarder: '' @ resp_text response)), c1)
          else (response_json response, c1))"

text \<open>
  \<open>list_forwarders\<close> (lines 78-121). The query parameters: \<open>pageSize\<close> only when
  \<open>page_size\<close> is truthy, \<open>pageToken\<close> only when \<open>page_token\<close> is.
\<close>

definition list_params :: "int \<Rightarrow> json \<Rightarrow> (string \<times> json) list" where
  "list_params page_size page_token =
     (if page_size \<noteq> 0 then [(''pageSize'', JNum (min 1000 (max 1 page_size)))] else []) @
     (if truthy page_token then [(''pageToken'', page_token)] else [])"

text \<open>
  Lines 115-119: the first page \<open>result\<close> (a dictionary, with entries \<open>kvs\<close>) takes the
  forwarders of the pages after it and loses its \<open>nextPageToken\<close>.
  \<open>result["forwarders"]\<close> raises \<open>KeyError\<close> when the page has no such key, \<open>.extend\<close>
  exists on lists only, and its argument must be iterable.
\<close>

definition merge_pages :: "(string \<times> json) list \<Rightarrow> json \<Rightarrow> error + json" where
  "merge_pages kvs next_page =
     (case truthy_member ''forwarders'' next_page of
        Inl e \<Rightarrow> Inl e
      | Inr None \<Rightarrow> Inr (JObj (dict_pop ''nextPageToken'' kvs))
      | Inr (Some extra) \<Rightarrow>
          (case map_of kvs ''forwarders'' of
             None \<Rightarrow> Inl (KeyError ''forwarders'')
           | Some (JArr xs) \<Rightarrow>
               (case py_iter extra of
                  Inl e \<Rightarrow> Inl e
                | Inr ys \<Rightarrow>
                    Inr (JObj (dict_pop ''nextPageToken''
                                 (dict_set ''forwarders'' (JArr (xs @ ys)) kvs))))
           | Some _ \<Rightarrow> Inl AttributeError))"

text \<open>
  The recursion of \<open>list_forwarders\<close> is as deep as the backend has pages, and a backend
  may go on for ever. The first argument is the depth Python's stack has left: at depth
  0 the call raises \<open>RecursionError\<close>.
\<close>

fun list_forwarders ::
  "nat \<Rightarrow> backend \<Rightarrow> client \<Rightarrow> int \<Rightarrow> json \<Rightarrow> (error + json) \<times> client" where
  "list_forwarders 0 srv c page_size page_token = (Inl RecursionError, c)"
| "list_forwarders (Suc depth) srv c page_size page_token =
     (case session_get srv c (forwarders_url c) (list_params page_size page_token) of
        (response, c1) \<Rightarrow>
          if status_code response \<noteq> 200
          then (Inl (APIError (''Failed to list forwarders: '' @ resp_text response)), c1)
          else
            (case response_json response of
               Inl e \<Rightarrow> (Inl e, c1)
             | Inr result \<Rightarrow>
                 (case truthy_member ''nextPageToken'' result of
                    Inl e \<Rightarrow> (Inl e, c1)
                  | Inr None \<Rightarrow> (Inr result, c1)
                  | Inr (Some token) \<Rightarrow>
                      (case list_forwarders depth srv c1 page_size token of
                         (Inl e, c2) \<Rightarrow> (Inl e, c2)
                       | (Inr next_page, c2) \<Rightarrow>
                           (case result of
                              JObj kvs \<Rightarrow> (merge_pages kvs next_page, c2)
                            | _ \<Rightarrow> (Inl TypeError, c2))))))"

text \<open>\<open>get_forwarder\<close> (lines 124-146).\<close>

definition get_forwarder :: "backend \<Rightarrow> client \<Rightarrow> string \<Rightarrow> (error + json) \<times> client" where
  "get_forwarder srv c forwarder_id =
     (case session_get srv c (forwarders_url c @ ''/'' @ forwarder_id) [] of
        (response, c1) \<Rightarrow>
          if status_code response \<noteq> 200
          then (Inl (APIError (''Failed to get forwarder: '' @ resp_text response)), c1)
          else (response_json response, c1))"

text \<open>
  \<open>_find_forwarder_by_display_name\<close> (lines 149-176). The scan returns the first
  forwarder whose \<open>displayName\<close> is the name; \<open>.get\<close> exists on dictionaries only.
\<close>

fun scan_forwarders :: "string \<Rightarrow> json list \<Rightarrow> error + json option" where
  "scan_forwarders display_name [] = Inr None"
| "scan_forwarders display_name (forwarder # rest) =
     (case forwarder of
        JObj kvs \<Rightarrow>
          if map_of kvs ''displayName'' = Some (JStr display_name) then Inr (Some forwarder)
          else scan_forwarders display_name rest
      | _ \<Rightarrow> Inl AttributeError)"

definition listed_forwarders :: "json \<Rightarrow> error + json list" where
  "listed_forwarders forwarders_response =
     (case forwarders_response of
        JObj kvs \<Rightarrow> (case map_of kvs ''forwarders'' of None \<Rightarrow> Inr [] | Some v \<Rightarrow> py_iter v)
      | _ \<Rightarrow> Inl AttributeError)"

definition find_forwarder_by_display_name ::
  "nat \<Rightarrow> backend \<Rightarrow> client \<Rightarrow> string \<Rightarrow> (error + json option) \<times> client" where
  "find_forwarder_by_display_name depth srv c display_name =
     (case list_forwarders depth srv c 1000 JNull of
        (Inl (APIError m), c1) \<Rightarrow>
          (Inl (APIError (''Failed to list forwarders while searching for '' @ [CHR 0x27] @
                            display_name @ [CHR 0x27] @ '': '' @ m)), c1)
      | (Inl e, c1) \<Rightarrow> (Inl e, c1)
      | (Inr forwarders_response, c1) \<Rightarrow>
          (case listed_forwarders forwarders_response of
             Inl e \<Rightarrow> (Inl e, c1)
           | Inr forwarders \<Rightarrow> (scan_forwarders display_name forwarders, c1)))"

text \<open>
  \<open>extract_forwarder_id(forwarder["name"])\<close> on a decoded forwarder. The subscript
  raises \<open>KeyError\<close> on a dictionary without the key and \<open>TypeError\<close> on anything that is
  not a dictionary. A falsy name is the empty name of \<open>extract_forwarder_id\<close>; on a
  number or a boolean \<open>"/" not in name\<close> raises \<open>TypeError\<close>; a list or a dictionary that
  holds \<open>"/"\<close> has no \<open>split\<close>. The cache slot and the forwarder ID are strings here, so a
  name that is a list or a dictionary without \<open>"/"\<close>, which Python would hand on as it
  is, ends in \<open>TypeError\<close> too.
\<close>

definition forwarder_name_id :: "json \<Rightarrow> error + string" where
  "forwarder_name_id forwarder =
     (case forwarder of
        JObj kvs \<Rightarrow>
          (case map_of kvs ''name'' of
             None \<Rightarrow> Inl (KeyError ''name'')
           | Some v \<Rightarrow>
               if \<not> truthy v then Inl (ValueError ''Forwarder name cannot be empty'')
               else
                 (case v of
                    JStr s \<Rightarrow> extract_forwarder_id s
                  | JArr xs \<Rightarrow> if JStr ''/'' \<in> set xs then Inl AttributeError else Inl TypeError
                  | JObj d \<Rightarrow> if ''/'' \<in> fst ` set d then Inl AttributeError else Inl TypeError
                  | _ \<Rightarrow> Inl TypeError))
      | _ \<Rightarrow> Inl TypeError)"

text \<open>
  \<open>get_or_create_forwarder\<close> (lines 179-236). Lines 233-236: an \<open>APIError\<close> whose
  message mentions a permission is raised again with a longer message.
\<close>

definition enrich_permission_error :: "error \<Rightarrow> error" where
  "enrich_permission_error e =
     (case e of
        APIError m \<Rightarrow>
          if str_contains ''permission'' (str_lower m)
          then APIError (''Insufficient permissions to manage forwarders: '' @ m)
          else e
      | _ \<Rightarrow> e)"

text \<open>Lines 223 and 230: the cache is written only for the default forwarder.\<close>

definition cache_forwarder :: "bool \<Rightarrow> json \<Rightarrow> client \<Rightarrow> (error + json) \<times> client" where
  "cache_forwarder is_default_forwarder_request forwarder c =
     (if is_default_forwarder_request
      then (case forwarder_name_id forwarder of
              Inl e \<Rightarrow> (Inl (enrich_permission_error e), c)
            | Inr fid \<Rightarrow> (Inr forwarder, c\<lparr>cached_default_forwarder_id := Some fid\<rparr>))
      else (Inr forwarder, c))"

text \<open>Lines 216-236: search by display name, create when nothing is found.\<close>

definition find_or_create ::
  "nat \<Rightarrow> backend \<Rightarrow> client \<Rightarrow> string \<Rightarrow> bool \<Rightarrow> (error + json) \<times> client" where
  "find_or_create depth srv c target_display_name is_default_forwarder_request =
     (case find_forwarder_by_display_name depth srv c target_display_name of
        (Inl e, c1) \<Rightarrow> (Inl (enrich_permission_error e), c1)
      | (Inr found_forwarder, c1) \<Rightarrow>
          (case (case found_forwarder of None \<Rightarrow> None
                 | Some f \<Rightarrow> if truthy f then Some f else None) of
             Some f \<Rightarrow> cache_forwarder is_default_forwarder_request f c1
           | None \<Rightarrow>
               (case create_forwarder srv c1 target_display_name None False False of
                  (Inl e, c2) \<Rightarrow> (Inl (enrich_permission_error e), c2)
                | (Inr created_forwarder, c2) \<Rightarrow>
                    cache_forwarder is_default_forwarder_request created_forwarder c2)))"

text \<open>
  Lines 201-214: the warm cache. \<open>Some r\<close> is the early return (or an exception that
  is not an \<open>APIError\<close>), \<open>None\<close> is the fall through, with the cache cleared.
\<close>

definition try_cached ::
  "backend \<Rightarrow> client \<Rightarrow> string \<Rightarrow> (error + json) option \<times> client" where
  "try_cached srv c cached_id =
     (case get_forwarder srv c cached_id of
        (Inl (APIError m), c1) \<Rightarrow> (None, c1\<lparr>cached_default_forwarder_id := None\<rparr>)
      | (Inl e, c1) \<Rightarrow> (Some (Inl e), c1)
      | (Inr forwarder, c1) \<Rightarrow>
          (case forwarder of
             JObj kvs \<Rightarrow>
               if map_of kvs ''displayName'' = Some (JStr (default_forwarder_display_name c))
               then (Some (Inr forwarder), c1)
               else (None, c1\<lparr>cached_default_forwarder_id := None\<rparr>)
           | _ \<Rightarrow> (Some (Inl AttributeError), c1)))"

definition target_name :: "client \<Rightarrow> string option \<Rightarrow> string" where
  "target_name c display_name =
     (case display_name of
        None \<Rightarrow> default_forwarder_display_name c
      | Some d \<Rightarrow> if d \<noteq> [] then d else default_forwarder_display_name c)"

definition get_or_create_forwarder ::
  "nat \<Rightarrow> backend \<Rightarrow> client \<Rightarrow> string option \<Rightarrow> (error + json) \<times> client" where
  "get_or_create_forwarder depth srv c display_name =
     (let target_display_name = target_name c display_name;
          is_default_forwarder_request =
            (target_display_name = default_forwarder_display_name c)
      in case cached_default_forwarder_id c of
           Some cached_id \<Rightarrow>
             if is_default_forwarder_request \<and> cached_id \<noteq> []
             then (case try_cached srv c cached_id of
                     (Some r, c1) \<Rightarrow> (r, c1)
                   | (None, c1) \<Rightarrow>
                       find_or_create depth srv c1 target_display_name
                         is_default_forwarder_request)
             else find_or_create depth srv c target_display_name is_default_forwarder_request
         | None \<Rightarrow>
             find_or_create depth srv c target_display_name is_default_forwarder_request)"

section \<open>Dates and times\<close>

text \<open>
  A \<open>datetime\<close>: its wall-clock fields, its \<open>tzinfo\<close> and what its \<open>utcoffset()\<close> gives.
  A \<open>tzinfo\<close> is an object, known here by its identity; a naive value has none. The
  offset is in seconds; a naive value has none, and a zone may give none either. A zone
  with daylight saving time gives different offsets to different values, and \<open>fold\<close>
  matters only through the offset it selects.
\<close>

record datetime =
  year :: nat
  month :: nat
  day :: nat
  hour :: nat
  minute :: nat
  second :: nat
  microsecond :: nat
  tzinfo :: "nat option"
  utcoffset :: "int option"

definition is_leap :: "nat \<Rightarrow> bool" where
  "is_leap y = (y mod 4 = 0 \<and> (y mod 100 \<noteq> 0 \<or> y mod 400 = 0))"

definition days_in_month :: "nat \<Rightarrow> nat \<Rightarrow> nat" where
  "days_in_month y m =
     (if m = 2 then (if is_leap y then 29 else 28)
      else if m \<in> {4, 6, 9, 11} then 30 else 31)"

text \<open>The values the \<open>datetime\<close> constructor accepts.\<close>

definition valid_datetime :: "datetime \<Rightarrow> bool" where
  "valid_datetime d =
     (1 \<le> year d \<and> year d \<le> 9999 \<and> 1 \<le> month d \<and> month d \<le> 12 \<and>
      1 \<le> day d \<and> day d \<le> days_in_month (year d) (month d) \<and>
      hour d < 24 \<and> minute d < 60 \<and> second d < 60 \<and> microsecond d < 1000000 \<and>
      (case utcoffset d of None \<Rightarrow> True | Some off \<Rightarrow> - 86400 < off \<and> off < 86400) \<and>
      (tzinfo d = None \<longrightarrow> utcoffset d = None))"

text \<open>\<open>date.toordinal()\<close>: the day number, 1 for 1 January of year 1.\<close>

definition days_before_year :: "nat \<Rightarrow> int" where
  "days_before_year y =
     (let p = int y - 1 in p * 365 + p div 4 - p div 100 + p div 400)"

definition days_before_month :: "nat \<Rightarrow> nat \<Rightarrow> int" where
  "days_before_month y m =
     (if 1 \<le> m \<and> m \<le> 12
      then [0, 31, 59, 90, 120, 151, 181, 212, 243, 273, 304, 334] ! (m - 1) +
           (if 2 < m \<and> is_leap y then 1 else 0)
      else 0)"

definition toordinal :: "datetime \<Rightarrow> int" where
  "toordinal d = days_before_year (year d) + days_before_month (year d) (month d) + int (day d)"

text \<open>The instant of an aware value, in microseconds of UTC since the start of day 0.\<close>

definition utc_microseconds :: "datetime \<Rightarrow> int \<Rightarrow> int" where
  "utc_microseconds d off =
     ((((toordinal d * 24 + int (hour d)) * 60 + int (minute d)) * 60 + int (second d)) - off)
       * 1000000 + int (microsecond d)"

fun lex_less :: "nat list \<Rightarrow> nat list \<Rightarrow> bool" where
  "lex_less [] [] = False"
| "lex_less [] (y # ys) = True"
| "lex_less (x # xs) [] = False"
| "lex_less (x # xs) (y # ys) = (x < y \<or> (x = y \<and> lex_less xs ys))"

definition datetime_fields :: "datetime \<Rightarrow> nat list" where
  "datetime_fields d = [year d, month d, day d, hour d, minute d, second d, microsecond d]"

text \<open>
  \<open>a < b\<close> on two \<open>datetime\<close>s. Two values with the same \<open>tzinfo\<close> object, two naive
  values among them, compare by their wall-clock fields, whatever their offsets; so
  do two values whose offsets are equal. Otherwise a value without an offset makes the
  comparison raise \<open>TypeError\<close>, and two values with offsets compare by their instants.
\<close>

definition datetime_lt :: "datetime \<Rightarrow> datetime \<Rightarrow> error + bool" where
  "datetime_lt a b =
     (if tzinfo a = tzinfo b \<or> utcoffset a = utcoffset b
      then Inr (lex_less (datetime_fields a) (datetime_fields b))
      else (case (utcoffset a, utcoffset b) of
              (Some oa, Some ob) \<Rightarrow> Inr (utc_microseconds a oa < utc_microseconds b ob)
            | _ \<Rightarrow> Inl TypeError))"

text \<open>Decimal numerals, and \<open>%02d\<close>, \<open>%04d\<close>, \<open>%06d\<close>.\<close>

definition digit_char :: "nat \<Rightarrow> char" where
  "digit_char d = char_of (48 + d)"

function show_nat :: "nat \<Rightarrow> string" where
  "show_nat n = (if n < 10 then [digit_char n] else show_nat (n div 10) @ [digit_char (n mod 10)])"
  by pat_completeness auto
termination
  by (relation "measure id") auto

declare show_nat.simps [simp del]

definition pad :: "nat \<Rightarrow> nat \<Rightarrow> string" where
  "pad w n = replicate (w - length (show_nat n)) CHR ''0'' @ show_nat n"

text \<open>The last \<open>w\<close> decimal digits of a number, which is what \<open>pad\<close> gives below \<open>10 ^ w\<close>.\<close>

fun digits :: "nat \<Rightarrow> nat \<Rightarrow> string" where
  "digits 0 n = []"
| "digits (Suc w) n = digits w (n div 10) @ [digit_char (n mod 10)]"

text \<open>
  \<open>strftime("%Y-%m-%dT%H:%M:%S.%fZ")\<close> (lines 328-329): the fields of the value as
  they are, and the letter Z. \<open>%Y\<close> is taken as the four digits Python documents.
\<close>

definition format_timestamp :: "datetime \<Rightarrow> string" where
  "format_timestamp d =
     pad 4 (year d) @ ''-'' @ pad 2 (month d) @ ''-'' @ pad 2 (day d) @ ''T'' @
     pad 2 (hour d) @ '':'' @ pad 2 (minute d) @ '':'' @ pad 2 (second d) @ ''.'' @
     pad 6 (microsecond d) @ ''Z''"

section \<open>Base64\<close>

definition b64_alphabet :: string where
  "b64_alphabet = ''ABCDEFGHIJKLMNOPQRSTUVWXYZabcdefghijklmnopqrstuvwxyz0123456789+/''"

definition b64_char :: "nat \<Rightarrow> char" where
  "b64_char i = b64_alphabet ! (i mod 64)"

fun b64_groups :: "nat list \<Rightarrow> string" where
  "b64_groups [] = []"
| "b64_groups [a] = [b64_char (a div 4), b64_char ((a mod 4) * 16), CHR ''='', CHR ''='']"
| "b64_groups [a, b] =
     [b64_char (a div 4), b64_char ((a mod 4) * 16 + b div 16), b64_char ((b mod 16) * 4),
      CHR ''='']"
| "b64_groups (a # b # c # rest) =
     [b64_char (a div 4), b64_char ((a mod 4) * 16 + b div 16),
      b64_char ((b mod 16) * 4 + c div 64), b64_char (c mod 64)] @ b64_groups rest"

text \<open>\<open>base64.b64encode(msg.encode("utf-8")).decode("utf-8")\<close>: a string is its UTF-8 bytes.\<close>

definition b64encode :: "string \<Rightarrow> string" where
  "b64encode msg = b64_groups (map of_char msg)"

section \<open>Log ingestion\<close>

text \<open>\<open>log_message: Union[str, List[str]]\<close>.\<close>

datatype log_message = Single string | Many "string list"

definition log_messages_of :: "log_message \<Rightarrow> string list" where
  "log_messages_of log_message = (case log_message of Single s \<Rightarrow> [s] | Many l \<Rightarrow> l)"

text \<open>Lines 350-369: one entry of the payload's \<open>logs\<close>.\<close>

definition log_entry ::
  "string \<Rightarrow> string \<Rightarrow> string option \<Rightarrow> (string \<times> string) list option \<Rightarrow> string \<Rightarrow> json" where
  "log_entry log_entry_time_str collection_time_str namespace labels msg =
     JObj ([(''data'', JStr (b64encode msg)),
            (''log_entry_time'', JStr log_entry_time_str),
            (''collection_time'', JStr collection_time_str)] @
           (case namespace of
              None \<Rightarrow> []
            | Some ns \<Rightarrow> if ns \<noteq> [] then [(''environment_namespace'', JStr ns)] else []) @
           (case labels of
              None \<Rightarrow> []
            | Some ls \<Rightarrow>
                if ls \<noteq> []
                then [(''labels'', JObj (map (\<lambda>p. (fst p, JObj [(''value'', JStr (snd p))])) ls))]
                else []))"

definition import_payload :: "json list \<Rightarrow> string \<Rightarrow> json" where
  "import_payload logs forwarder_resource =
     JObj [(''inline_source'',
            JObj [(''logs'', JArr logs), (''forwarder'', JStr forwarder_resource)])]"

definition logs_import_url :: "client \<Rightarrow> string \<Rightarrow> string" where
  "logs_import_url c log_type =
     base_url c @ ''/'' @ instance_id c @ ''/logTypes/'' @ log_type @ ''/logs:import''"

text \<open>Lines 331-334: the forwarder to use, the default one when none is given.\<close>

definition resolve_forwarder_id ::
  "nat \<Rightarrow> backend \<Rightarrow> client \<Rightarrow> string option \<Rightarrow> (error + string) \<times> client" where
  "resolve_forwarder_id depth srv c forwarder_id =
     (case forwarder_id of
        Some fid \<Rightarrow> (Inr fid, c)
      | None \<Rightarrow>
          (case get_or_create_forwarder depth srv c None of
             (Inl e, c1) \<Rightarrow> (Inl e, c1)
           | (Inr forwarder, c1) \<Rightarrow> (forwarder_name_id forwarder, c1)))"

text \<open>Lines 327-381: what \<open>ingest_log\<close> does once the log type and the times have passed.\<close>

definition submit_logs ::
  "nat \<Rightarrow> backend \<Rightarrow> client \<Rightarrow> string \<Rightarrow> log_message \<Rightarrow> datetime \<Rightarrow> datetime \<Rightarrow>
   string option \<Rightarrow> (string \<times> string) list option \<Rightarrow> string option \<Rightarrow> (error + json) \<times> client" where
  "submit_logs depth srv c log_type log_message log_entry_time collection_time namespace
     labels forwarder_id =
     (let log_entry_time_str = format_timestamp log_entry_time;
          collection_time_str = format_timestamp collection_time
      in case resolve_forwarder_id depth srv c forwarder_id of
           (Inl e, c1) \<Rightarrow> (Inl e, c1)
         | (Inr fid, c1) \<Rightarrow>
             let forwarder_resource =
                   (if CHR ''/'' \<notin> set fid
                    then instance_id c1 @ ''/forwarders/'' @ fid else fid);
                 url = logs_import_url c1 log_type;
                 logs = map (log_entry log_entry_time_str collection_time_str
                               namespace labels) (log_messages_of log_message);
                 payload = import_payload logs forwarder_resource
             in case session_post srv c1 url payload of
                  (response, c2) \<Rightarrow>
                    if status_code response \<noteq> 200
                    then (Inl (APIError (''Failed to ingest log: '' @ resp_text response)), c2)
                    else (response_json response, c2))"

text \<open>
  \<open>ingest_log\<close> (lines 273-381). \<open>is_valid_log_type\<close> is the registry of
  \<open>secops.chronicle.log_types\<close>, and \<open>now\<close> is what \<open>datetime.now()\<close> reads on line 313,
  a naive value in local time.
\<close>

definition ingest_log ::
  "(string \<Rightarrow> bool) \<Rightarrow> datetime \<Rightarrow> nat \<Rightarrow> backend \<Rightarrow> client \<Rightarrow> string \<Rightarrow> log_message \<Rightarrow>
   datetime option \<Rightarrow> datetime option \<Rightarrow> string option \<Rightarrow> (string \<times> string) list option \<Rightarrow>
   string option \<Rightarrow> bool \<Rightarrow> (error + json) \<times> client" where
  "ingest_log is_valid_log_type now depth srv c log_type log_message log_entry_time
     collection_time namespace labels forwarder_id force_log_type =
     (if \<not> is_valid_log_type log_type \<and> \<not> force_log_type
      then (Inl (ValueError (''Invalid log type: '' @ log_type @
                              ''. Use force_log_type=True to override.'')), c)
      else
        let log_entry_time = (case log_entry_time of None \<Rightarrow> now | Some t \<Rightarrow> t);
            collection_time = (case collection_time of None \<Rightarrow> now | Some t \<Rightarrow> t)
        in case datetime_lt collection_time log_entry_time of
             Inl e \<Rightarrow> (Inl e, c)
           | Inr True \<Rightarrow>
               (Inl (ValueError ''Collection time must be same or after log entry time''), c)
           | Inr False \<Rightarrow>
               submit_logs depth srv c log_type log_message log_entry_time collection_time
                 namespace labels forwarder_id)"

section \<open>Python objects in a store\<close>

text \<open>
  \<open>ingest_udm\<close> changes dictionaries in place, so the events live in a store: a
  value is a scalar or a reference to a list or a dictionary, the store is the sequence
  of the objects allocated so far, and a new object goes at its end. A reference of a
  well-formed store points into it; where the model meets a reference that does not, it
  stops with an error.
\<close>

datatype pyval = PNone | PBool bool | PInt int | PStr string | PRef nat

datatype pyobj = PList "pyval list" | PDict "(string \<times> pyval) list"

type_synonym store = "pyobj list"

definition lookup :: "store \<Rightarrow> nat \<Rightarrow> pyobj option" where
  "lookup h a = (if a < length h then Some (h ! a) else None)"

text \<open>\<open>isinstance(v, dict)\<close>.\<close>

definition is_dict :: "store \<Rightarrow> pyval \<Rightarrow> bool" where
  "is_dict h v =
     (case v of
        PRef a \<Rightarrow> (case lookup h a of Some (PDict kvs) \<Rightarrow> True | _ \<Rightarrow> False)
      | _ \<Rightarrow> False)"

definition truthy_val :: "store \<Rightarrow> pyval \<Rightarrow> bool" where
  "truthy_val h v =
     (case v of
        PNone \<Rightarrow> False
      | PBool b \<Rightarrow> b
      | PInt n \<Rightarrow> n \<noteq> 0
      | PStr s \<Rightarrow> s \<noteq> []
      | PRef a \<Rightarrow>
          (case lookup h a of
             Some (PList xs) \<Rightarrow> xs \<noteq> []
           | Some (PDict kvs) \<Rightarrow> kvs \<noteq> []
           | None \<Rightarrow> False))"

text \<open>\<open>str(type(v))\<close>, for the message of line 457.\<close>

definition type_repr :: "store \<Rightarrow> pyval \<Rightarrow> string" where
  "type_repr h v =
     ''<class '' @ [CHR 0x27] @
     (case v of
        PNone \<Rightarrow> ''NoneType''
      | PBool b \<Rightarrow> ''bool''
      | PInt n \<Rightarrow> ''int''
      | PStr s \<Rightarrow> ''str''
      | PRef a \<Rightarrow> (case lookup h a of Some (PDict kvs) \<Rightarrow> ''dict'' | _ \<Rightarrow> ''list'')) @
     [CHR 0x27] @ ''>''"

text \<open>\<open>for x in v\<close> on a value of the store.\<close>

definition iter_val :: "store \<Rightarrow> pyval \<Rightarrow> error + pyval list" where
  "iter_val h v =
     (case v of
        PStr s \<Rightarrow> Inr (map (\<lambda>c. PStr [c]) s)
      | PRef a \<Rightarrow>
          (case lookup h a of
             Some (PList xs) \<Rightarrow> Inr xs
           | Some (PDict kvs) \<Rightarrow> Inr (map (\<lambda>p. PStr (fst p)) kvs)
           | None \<Rightarrow> Inl TypeError)
      | _ \<Rightarrow> Inl TypeError)"

text \<open>\<open>y.append(x)\<close> and \<open>y[k] = x\<close> on the object at an address.\<close>

definition store_append :: "store \<Rightarrow> nat \<Rightarrow> pyval \<Rightarrow> store" where
  "store_append h y x =
     (case lookup h y of Some (PList ys) \<Rightarrow> h[y := PList (ys @ [x])] | _ \<Rightarrow> h)"

definition store_set :: "store \<Rightarrow> nat \<Rightarrow> string \<Rightarrow> pyval \<Rightarrow> store" where
  "store_set h y k x =
     (case lookup h y of Some (PDict kvs) \<Rightarrow> h[y := PDict (dict_set k x kvs)] | _ \<Rightarrow> h)"

definition has_key :: "store \<Rightarrow> nat \<Rightarrow> string \<Rightarrow> bool" where
  "has_key h a k =
     (case lookup h a of Some (PDict kvs) \<Rightarrow> k \<in> fst ` set kvs | _ \<Rightarrow> False)"

subsection \<open>\<open>copy.deepcopy\<close>\<close>

text \<open>
  The memo maps an object already copied to its copy, so sharing and cycles are kept.
  A list is copied as \<open>_deepcopy_list\<close> does it: the empty copy is allocated and entered
  in the memo, then the copies of the elements are appended; a dictionary likewise. A
  scalar is its own copy. The first argument is the recursion depth that is left;
  \<open>None\<close> is the \<open>RecursionError\<close> of a structure nested deeper than that.
\<close>

type_synonym memo = "(nat \<times> nat) list"

type_synonym copier = "memo \<Rightarrow> store \<Rightarrow> pyval \<Rightarrow> (pyval \<times> memo \<times> store) option"

fun copy_list_items :: "copier \<Rightarrow> memo \<Rightarrow> store \<Rightarrow> nat \<Rightarrow> pyval list \<Rightarrow> (memo \<times> store) option" where
  "copy_list_items cp m h y [] = Some (m, h)"
| "copy_list_items cp m h y (x # xs) =
     (case cp m h x of
        None \<Rightarrow> None
      | Some (x', m', h') \<Rightarrow> copy_list_items cp m' (store_append h' y x') y xs)"

fun copy_dict_items ::
  "copier \<Rightarrow> memo \<Rightarrow> store \<Rightarrow> nat \<Rightarrow> (string \<times> pyval) list \<Rightarrow> (memo \<times> store) option" where
  "copy_dict_items cp m h y [] = Some (m, h)"
| "copy_dict_items cp m h y (p # ps) =
     (case cp m h (snd p) of
        None \<Rightarrow> None
      | Some (x', m', h') \<Rightarrow> copy_dict_items cp m' (store_set h' y (fst p) x') y ps)"

primrec deepcopy :: "nat \<Rightarrow> copier" where
  "deepcopy 0 = (\<lambda>m h v. None)"
| "deepcopy (Suc depth) =
     (\<lambda>m h v.
        case v of
          PRef a \<Rightarrow>
            (case map_of m a of
               Some y \<Rightarrow> Some (PRef y, m, h)
             | None \<Rightarrow>
                 (case lookup h a of
                    None \<Rightarrow> None
                  | Some (PList xs) \<Rightarrow>
                      (case copy_list_items (deepcopy depth) ((a, length h) # m)
                              (h @ [PList []]) (length h) xs of
                         None \<Rightarrow> None
                       | Some (m', h') \<Rightarrow> Some (PRef (length h), m', h'))
                  | Some (PDict kvs) \<Rightarrow>
                      (case copy_dict_items (deepcopy depth) ((a, length h) # m)
                              (h @ [PDict []]) (length h) kvs of
                         None \<Rightarrow> None
                       | Some (m', h') \<Rightarrow> Some (PRef (length h), m', h'))))
        | _ \<Rightarrow> Some (v, m, h))"

subsection \<open>Encoding a value of the store as a JSON body\<close>

fun sequence :: "(error + 'a) list \<Rightarrow> error + 'a list" where
  "sequence [] = Inr []"
| "sequence (r # rs) =
     (case r of
        Inl e \<Rightarrow> Inl e
      | Inr x \<Rightarrow> (case sequence rs of Inl e \<Rightarrow> Inl e | Inr xs \<Rightarrow> Inr (x # xs)))"

text \<open>
  \<open>path\<close> holds the containers being encoded around the value: meeting one of them
  again is a circular reference, which the session refuses before it sends anything.
\<close>

primrec to_json :: "nat \<Rightarrow> nat list \<Rightarrow> store \<Rightarrow> pyval \<Rightarrow> error + json" where
  "to_json 0 = (\<lambda>path h v. Inl RecursionError)"
| "to_json (Suc depth) =
     (\<lambda>path h v.
        case v of
          PNone \<Rightarrow> Inr JNull
        | PBool b \<Rightarrow> Inr (JBool b)
        | PInt n \<Rightarrow> Inr (JNum n)
        | PStr s \<Rightarrow> Inr (JStr s)
        | PRef a \<Rightarrow>
            if a \<in> set path then Inl InvalidJSONError
            else
              (case lookup h a of
                 None \<Rightarrow> Inl TypeError
               | Some (PList xs) \<Rightarrow>
                   (case sequence (map (to_json depth (a # path) h) xs) of
                      Inl e \<Rightarrow> Inl e
                    | Inr js \<Rightarrow> Inr (JArr js))
               | Some (PDict kvs) \<Rightarrow>
                   (case sequence (map (\<lambda>p. case to_json depth (a # path) h (snd p) of
                                               Inl e \<Rightarrow> Inl e
                                             | Inr j \<Rightarrow> Inr (fst p, j)) kvs) of
                      Inl e \<Rightarrow> Inl e
                    | Inr js \<Rightarrow> Inr (JObj js))))"

section \<open>UDM event ingestion\<close>

text \<open>
  \<open>datetime.isoformat()\<close>: the fraction only when the microseconds are not 0, and the
  offset of an aware value as \<open>+HH:MM\<close>, with \<open>:SS\<close> when it has seconds.
\<close>

definition format_offset :: "int \<Rightarrow> string" where
  "format_offset off =
     (let a = nat \<bar>off\<bar>
      in (if off < 0 then ''-'' else ''+'') @ pad 2 (a div 3600) @ '':'' @
         pad 2 ((a mod 3600) div 60) @
         (if a mod 60 \<noteq> 0 then '':'' @ pad 2 (a mod 60) else []))"

definition isoformat :: "datetime \<Rightarrow> string" where
  "isoformat d =
     pad 4 (year d) @ ''-'' @ pad 2 (month d) @ ''-'' @ pad 2 (day d) @ ''T'' @
     pad 2 (hour d) @ '':'' @ pad 2 (minute d) @ '':'' @ pad 2 (second d) @
     (if microsecond d \<noteq> 0 then ''.'' @ pad 6 (microsecond d) else []) @
     (case utcoffset d of None \<Rightarrow> [] | Some off \<Rightarrow> format_offset off)"

text \<open>
  \<open>s.replace(old, new)\<close> for a non-empty \<open>old\<close>: the occurrences from the left, without
  overlap. The counter is the number of characters of a match still to be skipped.
\<close>

fun replace_from :: "string \<Rightarrow> string \<Rightarrow> nat \<Rightarrow> string \<Rightarrow> string" where
  "replace_from old new k [] = []"
| "replace_from old new (Suc k) (c # cs) = replace_from old new k cs"
| "replace_from old new 0 (c # cs) =
     (if starts_with old (c # cs) then new @ replace_from old new (length old - 1) cs
      else c # replace_from old new 0 cs)"

definition str_replace :: "string \<Rightarrow> string \<Rightarrow> string \<Rightarrow> string" where
  "str_replace old new s = replace_from old new 0 s"

text \<open>
  Lines 469-472: \<open>datetime.now().astimezone()\<close> is the local wall-clock time \<open>now\<close> with
  the local offset \<open>off\<close> attached, and \<open>+00:00\<close> is rewritten to \<open>Z\<close>.
\<close>

definition event_timestamp :: "datetime \<Rightarrow> int \<Rightarrow> string" where
  "event_timestamp now off =
     str_replace ''+00:00'' ''Z'' (isoformat (now\<lparr>utcoffset := Some off\<rparr>))"

text \<open>
  What a call of \<open>ingest_udm\<close> reads from its environment: the \<open>k\<close>-th reading of the
  local clock and of the local offset, and the \<open>k\<close>-th \<open>str(uuid.uuid4())\<close>.
\<close>

record environment =
  now_local :: "nat \<Rightarrow> datetime"
  local_offset :: "nat \<Rightarrow> int"
  uuid4 :: "nat \<Rightarrow> string"

text \<open>The working state of the loop: the store and the readings taken so far.\<close>

record loop_state =
  heap :: store
  clock_reads :: nat
  uuid_reads :: nat

definition quote :: "string \<Rightarrow> string" where
  "quote s = [CHR 0x27] @ s @ [CHR 0x27]"

text \<open>Lines 467-476, on the \<open>metadata\<close> dictionary at address \<open>m\<close>.\<close>

definition backfill_metadata :: "environment \<Rightarrow> bool \<Rightarrow> loop_state \<Rightarrow> nat \<Rightarrow> loop_state" where
  "backfill_metadata env add_missing_ids st m =
     (let st1 =
            (if \<not> has_key (heap st) m ''event_timestamp''
             then st\<lparr>heap := store_set (heap st) m ''event_timestamp''
                                (PStr (event_timestamp (now_local env (clock_reads st))
                                         (local_offset env (clock_reads st)))),
                     clock_reads := Suc (clock_reads st)\<rparr>
             else st)
      in if add_missing_ids \<and> \<not> has_key (heap st1) m ''id''
         then st1\<lparr>heap := store_set (heap st1) m ''id'' (PStr (uuid4 env (uuid_reads st1))),
                  uuid_reads := Suc (uuid_reads st1)\<rparr>
         else st1)"

text \<open>Lines 454-476: the body of the loop, for one event.\<close>

definition backfill_event ::
  "environment \<Rightarrow> bool \<Rightarrow> loop_state \<Rightarrow> pyval \<Rightarrow> error option \<times> loop_state" where
  "backfill_event env add_missing_ids st event =
     (if \<not> is_dict (heap st) event
      then (Some (ValueError (''Invalid UDM event type: '' @ type_repr (heap st) event @
                                ''. Events must be dictionaries.'')), st)
      else
        (case event of
           PRef e \<Rightarrow>
             (case lookup (heap st) e of
                Some (PDict kvs) \<Rightarrow>
                  (case map_of kvs ''metadata'' of
                     None \<Rightarrow>
                       (Some (ValueError (''UDM event missing required '' @ quote ''metadata'' @
                                            '' section'')), st)
                   | Some metadata \<Rightarrow>
                       if \<not> is_dict (heap st) metadata
                       then (Some (ValueError (''UDM '' @ quote ''metadata'' @
                                                 '' must be a dictionary'')), st)
                       else (case metadata of
                               PRef m \<Rightarrow> (None, backfill_metadata env add_missing_ids st m)
                             | _ \<Rightarrow> (Some TypeError, st)))
              | _ \<Rightarrow> (Some TypeError, st))
         | _ \<Rightarrow> (Some TypeError, st)))"

fun backfill_events ::
  "environment \<Rightarrow> bool \<Rightarrow> loop_state \<Rightarrow> pyval list \<Rightarrow> error option \<times> loop_state" where
  "backfill_events env add_missing_ids st [] = (None, st)"
| "backfill_events env add_missing_ids st (event # rest) =
     (case backfill_event env add_missing_ids st event of
        (Some e, st') \<Rightarrow> (Some e, st')
      | (None, st') \<Rightarrow> backfill_events env add_missing_ids st' rest)"

text \<open>Lines 443-444: a single event becomes a new one-element list.\<close>

definition normalize_events :: "store \<Rightarrow> pyval \<Rightarrow> pyval \<times> store" where
  "normalize_events h udm_events =
     (if is_dict h udm_events then (PRef (length h), h @ [PList [udm_events]])
      else (udm_events, h))"

definition udm_import_url :: "client \<Rightarrow> string" where
  "udm_import_url c =
     ''https://'' @ region c @ ''-chronicle.googleapis.com/v1alpha/'' @
     ''projects/'' @ project_id c @ ''/locations/'' @ region c @ ''/instances/'' @
     customer_id c @ ''/events:import''"

text \<open>Line 483, as the session encodes it.\<close>

definition udm_body :: "nat \<Rightarrow> store \<Rightarrow> pyval list \<Rightarrow> error + json" where
  "udm_body depth h events =
     (case sequence (map (to_json depth [] h) events) of
        Inl e \<Rightarrow> Inl e
      | Inr js \<Rightarrow>
          Inr (JObj [(''inline_source'',
                      JObj [(''events'', JArr (map (\<lambda>j. JObj [(''udm'', j)]) js))])]))"

definition is_space :: "char \<Rightarrow> bool" where
  "is_space ch = ((of_char ch :: nat) \<in> {9, 10, 11, 12, 13, 28, 29, 30, 31, 32})"

text \<open>Lines 493-503. \<open>text.strip()\<close> is truthy when the text has a character that is not white space.\<close>

definition udm_response_data :: "response \<Rightarrow> json" where
  "udm_response_data r =
     (if filter (\<lambda>ch. \<not> is_space ch) (resp_text r) \<noteq> []
      then (case json_body r of
              Some j \<Rightarrow> j
            | None \<Rightarrow> JObj [(''raw_response'', JStr (resp_text r))])
      else JObj [])"

text \<open>
  Lines 442-483: everything \<open>ingest_udm\<close> does before the request, with the store as it
  leaves it. The result is the body to send, or the exception raised.
\<close>

definition prepare_udm_events ::
  "environment \<Rightarrow> nat \<Rightarrow> store \<Rightarrow> pyval \<Rightarrow> bool \<Rightarrow> (error + json) \<times> store" where
  "prepare_udm_events env depth h udm_events add_missing_ids =
     (case normalize_events h udm_events of
        (udm_events1, h1) \<Rightarrow>
          if \<not> truthy_val h1 udm_events1
          then (Inl (ValueError ''No UDM events provided''), h1)
          else
            (case deepcopy depth [] h1 udm_events1 of
               None \<Rightarrow> (Inl RecursionError, h1)
             | Some (events_copy, m, h2) \<Rightarrow>
                 (case iter_val h2 events_copy of
                    Inl e \<Rightarrow> (Inl e, h2)
                  | Inr events \<Rightarrow>
                      (case backfill_events env add_missing_ids
                              \<lparr>heap = h2, clock_reads = 0, uuid_reads = 0\<rparr> events of
                         (Some e, st) \<Rightarrow> (Inl e, heap st)
                       | (None, st) \<Rightarrow> (udm_body depth (heap st) events, heap st)))))"

text \<open>
  \<open>ingest_udm\<close> (lines 384-503). The result comes with the session's client and with
  the store as the call leaves it.
\<close>

definition ingest_udm ::
  "environment \<Rightarrow> nat \<Rightarrow> backend \<Rightarrow> client \<Rightarrow> store \<Rightarrow> pyval \<Rightarrow> bool \<Rightarrow>
   (error + json) \<times> client \<times> store" where
  "ingest_udm env depth srv c h udm_events add_missing_ids =
     (case prepare_udm_events env depth h udm_events add_missing_ids of
        (Inl e, h') \<Rightarrow> (Inl e, c, h')
      | (Inr body, h') \<Rightarrow>
          (case session_post srv c (udm_import_url c) body of
             (response, c1) \<Rightarrow>
               if 400 \<le> status_code response
               then (Inl (APIError (''Failed to ingest UDM events: '' @ resp_text response)),
                     c1, h')
               else (Inr (udm_response_data response), c1, h')))"

section \<open>Example clients and backends\<close>

text \<open>Concrete inputs on which the theorems below are run.\<close>

definition demo_client :: client where
  "demo_client =
     \<lparr>base_url = ''https://api/v1'', instance_id = ''inst'', project_id = ''proj'',
      region = ''us'', customer_id = ''cust'',
      default_forwarder_display_name = ''Wrapper-SDK-Forwarder'',
      cached_default_forwarder_id = None, calls = []\<rparr>"

definition ok_response :: "json \<Rightarrow> response" where
  "ok_response j = \<lparr>status_code = 200, resp_text = ''ok'', json_body = Some j\<rparr>"

definition status_response :: "int \<Rightarrow> response" where
  "status_response s = \<lparr>status_code = s, resp_text = ''body'', json_body = Some (JObj [])\<rparr>"

text \<open>A backend that gives the same answer to every request.\<close>

definition const_backend :: "response \<Rightarrow> backend" where
  "const_backend r tr rq = r"

section \<open>Notions the theorems use\<close>

text \<open>The requests a call has made: what the session's log gained between two states.\<close>

definition issued :: "client \<Rightarrow> client \<Rightarrow> request list" where
  "issued c c' = drop (length (calls c)) (calls c')"


definition listed :: "(string \<times> json) list \<Rightarrow> json list" where
  "listed kvs = (case map_of kvs ''forwarders'' of Some (JArr fs) \<Rightarrow> fs | _ \<Rightarrow> [])"












text \<open>A decoded forwarder that carries the client's default display name.\<close>

definition names_default :: "client \<Rightarrow> json \<Rightarrow> bool" where
  "names_default c f =
     (case f of
        JObj kvs \<Rightarrow> map_of kvs ''displayName'' = Some (JStr (default_forwarder_display_name c))
      | _ \<Rightarrow> False)"

text \<open>The cache slot as line 201 reads it: \<open>None\<close> and the empty string are both empty.\<close>

definition cache_empty :: "client \<Rightarrow> bool" where
  "cache_empty c = (case cached_default_forwarder_id c of None \<Rightarrow> True | Some i \<Rightarrow> i = [])"

definition is_api_error :: "error \<Rightarrow> bool" where
  "is_api_error e = (case e of APIError m \<Rightarrow> True | _ \<Rightarrow> False)"

text \<open>
  A backend on which a cached ID has gone stale: a direct fetch of any forwarder fails
  with 404, and the listing shows one forwarder with the default display name.
\<close>

definition listed_default_forwarder :: json where
  "listed_default_forwarder =
     JObj [(''name'', JStr ''inst/forwarders/new''),
           (''displayName'', JStr ''Wrapper-SDK-Forwarder'')]"

definition healing_backend :: backend where
  "healing_backend tr rq =
     (case rq of
        Get url params \<Rightarrow>
          if url = ''https://api/v1/inst/forwarders''
          then ok_response (JObj [(''forwarders'', JArr [listed_default_forwarder])])
          else status_response 404
      | Post url payload \<Rightarrow> status_response 500)"

definition stale_client :: client where
  "stale_client = demo_client\<lparr>cached_default_forwarder_id := Some ''old''\<rparr>"

text \<open>A log type registry that knows every type, and two readings of the same wall clock.\<close>

definition accept_all :: "string \<Rightarrow> bool" where
  "accept_all log_type = True"

definition noon :: datetime where
  "noon = \<lparr>year = 2024, month = 1, day = 1, hour = 12, minute = 0, second = 0,
           microsecond = 0, tzinfo = None, utcoffset = None\<rparr>"

definition noon_utc :: datetime where
  "noon_utc = noon\<lparr>tzinfo := Some 0, utcoffset := Some 0\<rparr>"

definition noon_plus5 :: datetime where
  "noon_plus5 = noon\<lparr>tzinfo := Some 1, utcoffset := Some 18000\<rparr>"


text \<open>
  Two readings in one zone, with one \<open>tzinfo\<close> object, in the night its clocks go back
  from 03:00 to 02:00: 02:30 before the change, two hours ahead of UTC, and 02:15 after
  it, one hour ahead of UTC, which is 45 minutes later.
\<close>

definition before_change :: datetime where
  "before_change =
     \<lparr>year = 2024, month = 10, day = 27, hour = 2, minute = 30, second = 0,
      microsecond = 0, tzinfo = Some 2, utcoffset = Some 7200\<rparr>"

definition after_change :: datetime where
  "after_change = before_change\<lparr>minute := 15, utcoffset := Some 3600\<rparr>"


definition is_value_error :: "error \<Rightarrow> bool" where
  "is_value_error e = (case e of ValueError m \<Rightarrow> True | _ \<Rightarrow> False)"

text \<open>
  An environment in a zone five and a half hours ahead of UTC, and a store with one
  event: the dictionary at address 0, whose \<open>metadata\<close> is the dictionary at address 1.
\<close>

definition demo_env :: environment where
  "demo_env =
     \<lparr>now_local = (\<lambda>k. noon), local_offset = (\<lambda>k. 19800), uuid4 = (\<lambda>k. ''uuid'')\<rparr>"

definition demo_store :: store where
  "demo_store = [PDict [(''metadata'', PRef 1)], PDict [(''event_type'', PStr ''LOGIN'')]]"

text \<open>What \<open>ingest_udm\<close> makes of that event there: the body it sends and the store it leaves.\<close>

definition demo_body :: json where
  "demo_body =
     JObj [(''inline_source'',
            JObj [(''events'',
                   JArr [JObj [(''udm'',
                                JObj [(''metadata'',
                                       JObj [(''event_type'', JStr ''LOGIN''),
                                             (''event_timestamp'',
                                                JStr ''2024-01-01T12:00:00+05:30''),
                                             (''id'', JStr ''uuid'')])])]])])]"

definition demo_store_after :: store where
  "demo_store_after =
     demo_store @
     [PList [PRef 0], PList [PRef 4], PDict [(''metadata'', PRef 5)],
      PDict [(''event_type'', PStr ''LOGIN''),
             (''event_timestamp'', PStr ''2024-01-01T12:00:00+05:30''),
             (''id'', PStr ''uuid'')]]"

section \<open>Notions about the store\<close>

text \<open>The addresses a value and an object refer to.\<close>

definition refs_of_val :: "pyval \<Rightarrow> nat set" where
  "refs_of_val v = (case v of PRef a \<Rightarrow> {a} | _ \<Rightarrow> {})"

definition refs_of_obj :: "pyobj \<Rightarrow> nat set" where
  "refs_of_obj ob =
     (case ob of
        PList xs \<Rightarrow> (\<Union>x \<in> set xs. refs_of_val x)
      | PDict kvs \<Rightarrow> (\<Union>p \<in> set kvs. refs_of_val (snd p)))"

text \<open>
  The objects from address \<open>n\<close> on refer only to objects from \<open>n\<close> on: the part of the
  store that a deep copy has built is closed.
\<close>

definition closed_from :: "nat \<Rightarrow> store \<Rightarrow> bool" where
  "closed_from n h = (\<forall>a. n \<le> a \<and> a < length h \<longrightarrow> refs_of_obj (h ! a) \<subseteq> {n..<length h})"

definition memo_from :: "nat \<Rightarrow> memo \<Rightarrow> store \<Rightarrow> bool" where
  "memo_from n m h = (\<forall>p \<in> set m. n \<le> snd p \<and> snd p < length h)"

definition copy_inv :: "nat \<Rightarrow> memo \<Rightarrow> store \<Rightarrow> bool" where
  "copy_inv n m h = (n \<le> length h \<and> memo_from n m h \<and> closed_from n h)"

text \<open>The value under a key of the dictionary at an address, if there is one.\<close>

definition entry :: "store \<Rightarrow> nat \<Rightarrow> string \<Rightarrow> pyval option" where
  "entry h a k = (case lookup h a of Some (PDict kvs) \<Rightarrow> map_of kvs k | _ \<Rightarrow> None)"

text \<open>The timestamp the \<open>j\<close>-th reading of the clock gives, and its wall-clock part.\<close>

definition stamp :: "environment \<Rightarrow> nat \<Rightarrow> pyval" where
  "stamp env j = PStr (event_timestamp (now_local env j) (local_offset env j))"

definition local_part :: "datetime \<Rightarrow> string" where
  "local_part now = isoformat (now\<lparr>utcoffset := None\<rparr>)"

text \<open>
  What the loop may do to the store between two of its states: the dictionaries keep
  every entry they have, and a dictionary that gains an \<open>event_timestamp\<close> gains the
  stamp of a reading taken in between.
\<close>

definition grows :: "environment \<Rightarrow> loop_state \<Rightarrow> loop_state \<Rightarrow> bool" where
  "grows env st st' =
     (clock_reads st \<le> clock_reads st' \<and>
      (\<forall>a k v. entry (heap st) a k = Some v \<longrightarrow> entry (heap st') a k = Some v) \<and>
      (\<forall>a v. entry (heap st) a ''event_timestamp'' = None \<and>
             entry (heap st') a ''event_timestamp'' = Some v \<longrightarrow>
             (\<exists>j. clock_reads st \<le> j \<and> j < clock_reads st' \<and> v = stamp env j)))"

text \<open>The state in which the loop starts on the one-event store: the store after the deep copy.\<close>

definition demo_copy_state :: loop_state where
  "demo_copy_state =
     \<lparr>heap = demo_store @
              [PList [PRef 0], PList [PRef 4], PDict [(''metadata'', PRef 5)],
               PDict [(''event_type'', PStr ''LOGIN'')]],
      clock_reads = 0, uuid_reads = 0\<rparr>"

section \<open>Properties of the codec\<close>

lemma split_on_nonempty: "split_on sep s \<noteq> []"
  by (induction s) (auto split: list.splits)

lemma split_on_append_sep:
  "split_on sep (xs @ sep # ys) = split_on sep xs @ split_on sep ys"
proof (induction xs)
  case Nil
  show ?case by simp
next
  case (Cons c xs)
  show ?case
  proof (cases "c = sep")
    case True
    with Cons show ?thesis by simp
  next
    case False
    obtain w ws where w: "split_on sep xs = w # ws"
      using split_on_nonempty [of sep xs] by (cases "split_on sep xs") auto
    with False Cons show ?thesis by simp
  qed
qed

lemma split_on_no_sep: "sep \<notin> set s \<Longrightarrow> split_on sep s = [s]"
  by (induction s) auto

lemma split_on_only_sep:
  "set s \<subseteq> {sep} \<Longrightarrow> filter (\<lambda>w. w \<noteq> []) (split_on sep s) = []"
  by (induction s) auto

lemma segments_of_decomposition:
  assumes seg: "seg \<noteq> []" "sep \<notin> set seg"
    and post: "set post \<subseteq> {sep}"
    and pre: "pre = [] \<or> last pre = sep"
  shows "\<exists>front. filter (\<lambda>w. w \<noteq> []) (split_on sep (pre @ seg @ post)) = front @ [seg]"
proof -
  have tail: "filter (\<lambda>w. w \<noteq> []) (split_on sep (seg @ post)) = [seg]"
  proof (cases post)
    case Nil
    with seg show ?thesis by (simp add: split_on_no_sep)
  next
    case (Cons p ps)
    with post have p: "p = sep" and ps: "set ps \<subseteq> {sep}" by auto
    have "split_on sep (seg @ sep # ps) = [seg] @ split_on sep ps"
      using seg by (simp add: split_on_append_sep split_on_no_sep)
    with seg ps Cons p show ?thesis by (simp add: split_on_only_sep)
  qed
  show ?thesis
  proof (cases "pre = []")
    case True
    with tail show ?thesis by simp
  next
    case False
    with pre obtain pre' where pre': "pre = pre' @ [sep]"
      by (metis append_butlast_last_id)
    have "split_on sep (pre @ seg @ post) = split_on sep pre' @ split_on sep (seg @ post)"
      using split_on_append_sep [of sep pre' "seg @ post"] pre' by simp
    with tail show ?thesis by simp
  qed
qed

lemma last_segment_exists:
  "\<not> set s \<subseteq> {sep} \<Longrightarrow>
     \<exists>pre seg post. s = pre @ seg @ post \<and> seg \<noteq> [] \<and> sep \<notin> set seg \<and>
        set post \<subseteq> {sep} \<and> (pre = [] \<or> last pre = sep)"
proof (induction s rule: rev_induct)
  case Nil
  then show ?case by simp
next
  case (snoc c xs)
  show ?case
  proof (cases "c = sep")
    case True
    with snoc.prems have "\<not> set xs \<subseteq> {sep}" by auto
    from snoc.IH [OF this] obtain pre seg post where
      d: "xs = pre @ seg @ post" "seg \<noteq> []" "sep \<notin> set seg" "set post \<subseteq> {sep}"
         "pre = [] \<or> last pre = sep" by blast
    have "xs @ [c] = pre @ seg @ (post @ [c])" using d by simp
    moreover have "set (post @ [c]) \<subseteq> {sep}" using d True by simp
    ultimately show ?thesis using d by blast
  next
    case False
    show ?thesis
    proof (cases "xs = [] \<or> last xs = sep")
      case True
      have "xs @ [c] = xs @ [c] @ []" by simp
      moreover have "[c] \<noteq> []" "sep \<notin> set [c]" "set [] \<subseteq> {sep}"
        using False by auto
      ultimately show ?thesis using True by blast
    next
      case no_sep: False
      then have "\<not> set xs \<subseteq> {sep}"
        by (metis last_in_set singletonD subsetD)
      from snoc.IH [OF this] obtain pre seg post where
        d: "xs = pre @ seg @ post" "seg \<noteq> []" "sep \<notin> set seg" "set post \<subseteq> {sep}"
           "pre = [] \<or> last pre = sep" by blast
      have "post = []"
      proof (rule ccontr)
        assume "post \<noteq> []"
        then have "last xs = last post" "last post \<in> set post" using d by auto
        with d no_sep show False by auto
      qed
      then have "xs @ [c] = pre @ (seg @ [c]) @ []" using d by simp
      moreover have "seg @ [c] \<noteq> []" "sep \<notin> set (seg @ [c])" using d False by auto
      ultimately show ?thesis using d(5) by (metis empty_set empty_subsetI)
    qed
  qed
qed

lemma extract_forwarder_id_segment:
  assumes "seg \<noteq> []" "CHR ''/'' \<notin> set seg" "set post \<subseteq> {CHR ''/''}"
    "pre = [] \<or> last pre = CHR ''/''"
  shows "extract_forwarder_id (pre @ seg @ post) = Inr seg"
proof (cases "CHR ''/'' \<in> set (pre @ seg @ post)")
  case False
  have "pre = []"
  proof (rule ccontr)
    assume "pre \<noteq> []"
    then have "last pre \<in> set pre" by simp
    with assms(4) \<open>pre \<noteq> []\<close> False show False by auto
  qed
  moreover have "post = []"
  proof (cases post)
    case (Cons p ps)
    with assms(3) False show ?thesis by auto
  qed simp
  ultimately show ?thesis using assms False by (simp add: extract_forwarder_id_def)
next
  case True
  from segments_of_decomposition [OF assms] obtain front where
    "filter (\<lambda>w. w \<noteq> []) (split_on CHR ''/'' (pre @ seg @ post)) = front @ [seg]" by blast
  with True assms(1) show ?thesis by (simp add: extract_forwarder_id_def Let_def)
qed

text \<open>
  C1. A non-empty name without \<open>/\<close> is returned unchanged. A name with a \<open>/\<close> that is not
  made of \<open>/\<close> alone splits as \<open>pre @ seg @ post\<close>, where \<open>seg\<close> is non-empty and free of
  \<open>/\<close>, \<open>post\<close> holds only \<open>/\<close>, and \<open>pre\<close> is empty or ends with \<open>/\<close>: \<open>seg\<close> is the last
  non-empty segment, and it is what the function returns. The empty name fails with a
  \<open>ValueError\<close> (the specification's \<open>InvalidArgument\<close>), and so does a name made of \<open>/\<close>
  alone, where nothing is left once the empty segments are dropped.
\<close>

theorem extract_forwarder_id_spec:
  "(name \<noteq> [] \<and> CHR ''/'' \<notin> set name \<longrightarrow> extract_forwarder_id name = Inr name) \<and>
   (CHR ''/'' \<in> set name \<and> \<not> set name \<subseteq> {CHR ''/''} \<longrightarrow>
      (\<exists>pre seg post. name = pre @ seg @ post \<and> seg \<noteq> [] \<and> CHR ''/'' \<notin> set seg \<and>
         set post \<subseteq> {CHR ''/''} \<and> (pre = [] \<or> last pre = CHR ''/'') \<and>
         extract_forwarder_id name = Inr seg)) \<and>
   (name = [] \<longrightarrow>
      extract_forwarder_id name = Inl (ValueError ''Forwarder name cannot be empty'')) \<and>
   (name \<noteq> [] \<and> set name \<subseteq> {CHR ''/''} \<longrightarrow>
      extract_forwarder_id name =
        Inl (ValueError (''Invalid forwarder name format: '' @ name)))"
proof (intro conjI impI)
  assume "name \<noteq> [] \<and> CHR ''/'' \<notin> set name"
  then show "extract_forwarder_id name = Inr name"
    by (simp add: extract_forwarder_id_def)
next
  assume a: "CHR ''/'' \<in> set name \<and> \<not> set name \<subseteq> {CHR ''/''}"
  then obtain pre seg post where
    d: "name = pre @ seg @ post" "seg \<noteq> []" "CHR ''/'' \<notin> set seg"
       "set post \<subseteq> {CHR ''/''}" "pre = [] \<or> last pre = CHR ''/''"
    using last_segment_exists [of name "CHR ''/''"] by blast
  have "extract_forwarder_id name = Inr seg"
    using extract_forwarder_id_segment [OF d(2-5)] d(1) by simp
  with d show "\<exists>pre seg post. name = pre @ seg @ post \<and> seg \<noteq> [] \<and> CHR ''/'' \<notin> set seg \<and>
         set post \<subseteq> {CHR ''/''} \<and> (pre = [] \<or> last pre = CHR ''/'') \<and>
         extract_forwarder_id name = Inr seg" by blast
next
  assume "name = []"
  then show "extract_forwarder_id name = Inl (ValueError ''Forwarder name cannot be empty'')"
    by (simp add: extract_forwarder_id_def)
next
  assume a: "name \<noteq> [] \<and> set name \<subseteq> {CHR ''/''}"
  then have "CHR ''/'' \<in> set name" by (cases name) auto
  with a show "extract_forwarder_id name =
      Inl (ValueError (''Invalid forwarder name format: '' @ name))"
    by (simp add: extract_forwarder_id_def split_on_only_sep)
qed

theorem extract_forwarder_id_spec_witness:
  "extract_forwarder_id ''xyz'' = Inr ''xyz'' \<and>
   (\<exists>pre seg post. ''fwd/xyz/'' = pre @ seg @ post \<and> seg \<noteq> [] \<and> CHR ''/'' \<notin> set seg \<and>
      set post \<subseteq> {CHR ''/''} \<and> (pre = [] \<or> last pre = CHR ''/'') \<and>
      extract_forwarder_id ''fwd/xyz/'' = Inr seg) \<and>
   extract_forwarder_id [] = Inl (ValueError ''Forwarder name cannot be empty'') \<and>
   extract_forwarder_id ''//'' = Inl (ValueError ''Invalid forwarder name format: //'')"
  using extract_forwarder_id_spec [of "''xyz''"] extract_forwarder_id_spec [of "''fwd/xyz/''"]
    extract_forwarder_id_spec [of "[]"] extract_forwarder_id_spec [of "''//''"]
  by simp

section \<open>Decimal digits\<close>

lemma digit_char_0: "digit_char 0 = CHR ''0''"
  by code_simp

lemma digit_chars:
  "digit_char 0 = CHR ''0''" "digit_char 1 = CHR ''1''" "digit_char 2 = CHR ''2''"
  "digit_char 3 = CHR ''3''" "digit_char 4 = CHR ''4''" "digit_char 5 = CHR ''5''"
  "digit_char 6 = CHR ''6''" "digit_char 7 = CHR ''7''" "digit_char 8 = CHR ''8''"
  "digit_char 9 = CHR ''9''" "digit_char (Suc 0) = CHR ''1''"
  by code_simp+

lemma digits_0: "digits w 0 = replicate w CHR ''0''"
  by (induction w) (simp_all add: digit_char_0 replicate_append_same)

lemma length_show_nat_pos: "0 < length (show_nat n)"
  by (subst show_nat.simps) simp

lemma pad_digits: "0 < w \<Longrightarrow> n < 10 ^ w \<Longrightarrow> pad w n = digits w n"
proof (induction w arbitrary: n)
  case 0
  then show ?case by simp
next
  case (Suc w)
  show ?case
  proof (cases "n < 10")
    case True
    then have "show_nat n = [digit_char n]" by (subst show_nat.simps) simp
    with True show ?thesis by (simp add: pad_def digits_0 )
  next
    case False
    then have s: "show_nat n = show_nat (n div 10) @ [digit_char (n mod 10)]"
      by (subst show_nat.simps) simp
    from False Suc.prems have w: "0 < w" by (cases w) auto
    from Suc.prems have "n div 10 < 10 ^ w" by (simp add: less_mult_imp_div_less mult.commute)
    from Suc.IH [OF w this] have "pad w (n div 10) = digits w (n div 10)" .
    then show ?thesis using s by (simp add: pad_def)
  qed
qed

lemma digits_2: "digits (Suc (Suc 0)) n = [digit_char (n div 10 mod 10), digit_char (n mod 10)]"
  by simp

lemma digits_4:
  "digits (Suc (Suc (Suc (Suc 0)))) n =
     [digit_char (n div 10 div 10 div 10 mod 10), digit_char (n div 10 div 10 mod 10),
      digit_char (n div 10 mod 10), digit_char (n mod 10)]"
  by simp

lemma digits_6:
  "digits (Suc (Suc (Suc (Suc (Suc (Suc 0)))))) n =
     [digit_char (n div 10 div 10 div 10 div 10 div 10 mod 10),
      digit_char (n div 10 div 10 div 10 div 10 mod 10),
      digit_char (n div 10 div 10 div 10 mod 10), digit_char (n div 10 div 10 mod 10),
      digit_char (n div 10 mod 10), digit_char (n mod 10)]"
  by simp

lemma pad2: "n < 100 \<Longrightarrow> pad 2 n = [digit_char (n div 10 mod 10), digit_char (n mod 10)]"
proof -
  assume n: "n < 100"
  have w: "(2::nat) = Suc (Suc 0)" by simp
  from n show ?thesis using pad_digits [of "Suc (Suc 0)" n] unfolding w digits_2 by simp
qed

lemma pad4:
  "n < 10000 \<Longrightarrow>
     pad 4 n = [digit_char (n div 10 div 10 div 10 mod 10), digit_char (n div 10 div 10 mod 10),
      digit_char (n div 10 mod 10), digit_char (n mod 10)]"
proof -
  assume n: "n < 10000"
  have w: "(4::nat) = Suc (Suc (Suc (Suc 0)))" by simp
  from n show ?thesis
    using pad_digits [of "Suc (Suc (Suc (Suc 0)))" n] unfolding w digits_4 by simp
qed

lemma pad6:
  "n < 1000000 \<Longrightarrow>
     pad 6 n = [digit_char (n div 10 div 10 div 10 div 10 div 10 mod 10),
      digit_char (n div 10 div 10 div 10 div 10 mod 10),
      digit_char (n div 10 div 10 div 10 mod 10), digit_char (n div 10 div 10 mod 10),
      digit_char (n div 10 mod 10), digit_char (n mod 10)]"
proof -
  assume n: "n < 1000000"
  have w: "(6::nat) = Suc (Suc (Suc (Suc (Suc (Suc 0)))))" by simp
  from n show ?thesis
    using pad_digits [of "Suc (Suc (Suc (Suc (Suc (Suc 0)))))" n] unfolding w digits_6 by simp
qed

section \<open>Properties of the forwarder directory\<close>

subsection \<open>Pagination\<close>

lemma forwarders_url_calls [simp]: "forwarders_url (c\<lparr>calls := x\<rparr>) = forwarders_url c"
  by (simp add: forwarders_url_def)



lemma dict_set_same: "map_of kvs k = Some v \<Longrightarrow> dict_set k v kvs = kvs"
  by (induction kvs) (auto split: if_splits)



lemma listed_absent: "map_of kvs ''forwarders'' = None \<Longrightarrow> listed kvs = []"
  by (simp add: listed_def)














subsection \<open>The page size\<close>

lemma list_forwarders_requests:
  "list_forwarders depth srv c page_size page_token = (r, c') \<Longrightarrow>
   \<exists>new. calls c' = calls c @ new \<and>
     (\<forall>rq \<in> set new. \<exists>token. rq = Get (forwarders_url c) (list_params page_size token))"
proof (induction depth arbitrary: c page_token r c')
  case 0
  then show ?case by simp
next
  case (Suc depth)
  let ?rq = "Get (forwarders_url c) (list_params page_size page_token)"
  let ?c1 = "c\<lparr>calls := calls c @ [?rq]\<rparr>"
  let ?P = "\<lambda>c'. \<exists>new. calls c' = calls c @ new \<and>
     (\<forall>rq \<in> set new. \<exists>token. rq = Get (forwarders_url c) (list_params page_size token))"
  have one: "?P ?c1" by auto
  have rec: "?P c2" if "list_forwarders depth srv ?c1 page_size token = (r2, c2)" for token r2 c2
  proof -
    from Suc.IH [OF that] obtain new where
      n: "calls c2 = calls ?c1 @ new"
         "\<forall>rq \<in> set new. \<exists>token. rq = Get (forwarders_url c) (list_params page_size token)"
      by auto
    then have "calls c2 = calls c @ (?rq # new)" by simp
    moreover have "\<forall>rq \<in> set (?rq # new).
        \<exists>token. rq = Get (forwarders_url c) (list_params page_size token)"
      using n(2) by auto
    ultimately show ?thesis by blast
  qed
  from Suc.prems show ?case
    using one rec
    by (auto simp: session_get_def split: sum.splits option.splits prod.splits json.splits if_splits)
qed

lemma list_params_page_size:
  "map_of (list_params page_size token) ''pageSize'' =
     (if page_size = 0 then None else Some (JNum (min 1000 (max 1 page_size))))"
  by (simp add: list_params_def)

text \<open>
  C9, as amended. Every request that \<open>list_forwarders\<close> issues is a \<open>get\<close> of the
  forwarders URL. When \<open>page_size\<close> is not 0, each carries \<open>pageSize\<close> with the value
  \<open>min(1000, max(1, page_size))\<close>, which lies in 1..1000; when \<open>page_size\<close> is 0, which
  line 98 reads as no page size, none carries a \<open>pageSize\<close> parameter.
\<close>

theorem list_forwarders_page_size:
  assumes "rq \<in> set (issued c (snd (list_forwarders depth srv c page_size page_token)))"
  shows "\<exists>params. rq = Get (forwarders_url c) params \<and>
           map_of params ''pageSize'' =
             (if page_size = 0 then None else Some (JNum (min 1000 (max 1 page_size)))) \<and>
           1 \<le> min 1000 (max 1 page_size) \<and> min 1000 (max 1 page_size) \<le> 1000"
proof -
  obtain r c' where run: "list_forwarders depth srv c page_size page_token = (r, c')"
    by (cases "list_forwarders depth srv c page_size page_token")
  from list_forwarders_requests [OF run] obtain new where
    n: "calls c' = calls c @ new"
       "\<forall>rq \<in> set new. \<exists>token. rq = Get (forwarders_url c) (list_params page_size token)"
    by blast
  from assms run n(1) have "rq \<in> set new" by (simp add: issued_def)
  with n(2) obtain token where "rq = Get (forwarders_url c) (list_params page_size token)"
    by blast
  then show ?thesis by (auto simp: list_params_page_size)
qed

theorem list_forwarders_page_size_witness:
  "Get ''https://api/v1/inst/forwarders'' [(''pageSize'', JNum 1000)] \<in>
     set (issued demo_client
            (snd (list_forwarders 1 (const_backend (ok_response (JObj []))) demo_client 5000 JNull))) \<and>
   (\<exists>params. Get ''https://api/v1/inst/forwarders'' [(''pageSize'', JNum 1000)] =
        Get (forwarders_url demo_client) params \<and>
      map_of params ''pageSize'' = Some (JNum 1000))"
proof -
  have m: "Get ''https://api/v1/inst/forwarders'' [(''pageSize'', JNum 1000)] \<in>
     set (issued demo_client
            (snd (list_forwarders 1 (const_backend (ok_response (JObj []))) demo_client 5000 JNull)))"
    by (simp add: issued_def session_get_def const_backend_def ok_response_def response_json_def
        forwarders_url_def list_params_def demo_client_def)
  from list_forwarders_page_size [OF m] m show ?thesis by simp
qed

text \<open>
  The claim as it stands fails at \<open>page_size = 0\<close>: the one request that is issued has
  no query parameter at all, so 0 is not raised to 1.
\<close>

theorem list_forwarders_page_size_counterexample:
  "issued demo_client
     (snd (list_forwarders 1 (const_backend (ok_response (JObj []))) demo_client 0 JNull)) =
   [Get ''https://api/v1/inst/forwarders'' []]"
  by (simp add: issued_def session_get_def const_backend_def ok_response_def response_json_def
      forwarders_url_def list_params_def demo_client_def)

subsection \<open>The cache of the default forwarder\<close>


lemma list_forwarders_frame:
  "list_forwarders depth srv c page_size token = (r, c') \<Longrightarrow> c' = c\<lparr>calls := calls c'\<rparr>"
proof (induction depth arbitrary: c token r c')
  case 0
  then show ?case by auto
next
  case (Suc depth)
  let ?c1 = "c\<lparr>calls := calls c @ [Get (forwarders_url c) (list_params page_size token)]\<rparr>"
  have rec: "c2 = c\<lparr>calls := calls c2\<rparr>"
    if "list_forwarders depth srv ?c1 page_size t = (r2, c2)" for t r2 c2
  proof -
    have "c2 = ?c1\<lparr>calls := calls c2\<rparr>" using Suc.IH [OF that] .
    then show ?thesis by simp
  qed
  from Suc.prems show ?case
    using rec
    by (auto simp: session_get_def split: sum.splits option.splits prod.splits json.splits if_splits)
qed

lemma get_forwarder_frame:
  "get_forwarder srv c i = (r, c') \<Longrightarrow> c' = c\<lparr>calls := calls c'\<rparr>"
  by (auto simp: get_forwarder_def session_get_def split: if_splits)

lemma create_forwarder_frame:
  "create_forwarder srv c n md uc es = (r, c') \<Longrightarrow> c' = c\<lparr>calls := calls c'\<rparr>"
  by (auto simp: create_forwarder_def session_post_def split: if_splits)

lemma find_forwarder_frame:
  "find_forwarder_by_display_name depth srv c n = (r, c') \<Longrightarrow> c' = c\<lparr>calls := calls c'\<rparr>"
  by (auto simp: find_forwarder_by_display_name_def dest: list_forwarders_frame
      split: prod.splits sum.splits error.splits)

lemma scan_forwarders_match:
  "scan_forwarders n fs = Inr (Some f) \<Longrightarrow>
     \<exists>kvs. f = JObj kvs \<and> map_of kvs ''displayName'' = Some (JStr n)"
  by (induction fs) (auto split: json.splits if_splits)

lemma find_forwarder_match:
  "find_forwarder_by_display_name depth srv c n = (Inr (Some f), c') \<Longrightarrow>
     \<exists>kvs. f = JObj kvs \<and> map_of kvs ''displayName'' = Some (JStr n)"
  by (auto simp: find_forwarder_by_display_name_def dest: scan_forwarders_match
      split: prod.splits sum.splits error.splits)

lemma cache_forwarder_cases:
  "cache_forwarder isd f c = (r, c') \<Longrightarrow>
     (\<not> isd \<longrightarrow> r = Inr f \<and> c' = c) \<and>
     (isd \<longrightarrow> (\<exists>e. r = Inl e \<and> c' = c) \<or>
        (\<exists>i. r = Inr f \<and> forwarder_name_id f = Inr i \<and>
           cached_default_forwarder_id c' = Some i \<and>
           c' = c\<lparr>cached_default_forwarder_id := Some i\<rparr>))"
  by (auto simp: cache_forwarder_def split: sum.splits if_splits)

lemma find_or_create_cases:
  assumes "find_or_create depth srv c n isd = (r, c')"
  shows "(\<not> isd \<longrightarrow> cached_default_forwarder_id c' = cached_default_forwarder_id c) \<and>
     (isd \<longrightarrow>
        (\<exists>e. r = Inl e \<and> cached_default_forwarder_id c' = cached_default_forwarder_id c) \<or>
        (\<exists>f i. r = Inr f \<and> forwarder_name_id f = Inr i \<and>
           cached_default_forwarder_id c' = Some i \<and>
           ((\<exists>kvs. f = JObj kvs \<and> map_of kvs ''displayName'' = Some (JStr n)) \<or>
            (\<exists>c1 c2. create_forwarder srv c1 n None False False = (Inr f, c2) \<and>
               c' = c2\<lparr>cached_default_forwarder_id := Some i\<rparr>))))"
proof -
  obtain fr c1 where fnd: "find_forwarder_by_display_name depth srv c n = (fr, c1)"
    by (cases "find_forwarder_by_display_name depth srv c n")
  have c1: "cached_default_forwarder_id c1 = cached_default_forwarder_id c"
    using find_forwarder_frame [OF fnd] by (metis client.select_convs(7) client.surjective client.update_convs(8))
  show ?thesis
  proof (cases fr)
    case (Inl e)
    with assms fnd c1 show ?thesis by (auto simp: find_or_create_def)
  next
    case (Inr found)
    show ?thesis
    proof (cases "case found of None \<Rightarrow> None | Some f \<Rightarrow> if truthy f then Some f else None")
      case (Some f)
      then have ff: "found = Some f" by (auto split: option.splits if_splits)
      from assms fnd Inr Some have cf: "cache_forwarder isd f c1 = (r, c')"
        by (simp add: find_or_create_def)
      from find_forwarder_match [of depth srv c n f c1] fnd Inr ff
      obtain kvs where "f = JObj kvs" "map_of kvs ''displayName'' = Some (JStr n)" by auto
      with cache_forwarder_cases [OF cf] c1 show ?thesis by metis
    next
      case None
      obtain cr c2 where cr: "create_forwarder srv c1 n None False False = (cr, c2)"
        by (cases "create_forwarder srv c1 n None False False")
      have c2: "cached_default_forwarder_id c2 = cached_default_forwarder_id c"
        using create_forwarder_frame [OF cr] c1
        by (metis client.select_convs(7) client.surjective client.update_convs(8))
      show ?thesis
      proof (cases cr)
        case (Inl e)
        with assms fnd Inr None cr c2 show ?thesis by (auto simp: find_or_create_def)
      next
        case created: (Inr f)
        from assms fnd Inr None cr created have cf: "cache_forwarder isd f c2 = (r, c')"
          by (simp add: find_or_create_def)
        from cache_forwarder_cases [OF cf] c2 cr created show ?thesis by metis
      qed
    qed
  qed
qed


lemma try_cached_cases:
  assumes "try_cached srv c i = (x, c1)" and g: "get_forwarder srv c i = (g, c0)"
  shows "(case g of
            Inl e \<Rightarrow> if is_api_error e
                     then x = None \<and> c1 = c0\<lparr>cached_default_forwarder_id := None\<rparr>
                     else x = Some (Inl e) \<and> c1 = c0
          | Inr f \<Rightarrow>
              (case f of
                 JObj kvs \<Rightarrow> if names_default c f then x = Some (Inr f) \<and> c1 = c0
                             else x = None \<and> c1 = c0\<lparr>cached_default_forwarder_id := None\<rparr>
               | _ \<Rightarrow> x = Some (Inl AttributeError) \<and> c1 = c0))"
  using assms
  by (auto simp: try_cached_def is_api_error_def names_default_def
      split: sum.splits error.splits json.splits if_splits)

text \<open>
  C3. After \<open>get_or_create_forwarder\<close>, whatever the backend does and however the call
  ends:
  \<^item> a call for another display name than the default leaves the cache slot as it was;
  \<^item> a call for the default name leaves the slot empty, or untouched because an
    exception other than \<open>APIError\<close> ended the check of a warm cache, or untouched
    because the forwarder fetched under the cached ID was returned and carries the
    default display name, or holding the ID extracted from the name of the forwarder
    that is returned, which the listing showed under the default display name or
    which was just created under it;
  \<^item> on a warm cache, a fetched forwarder with the default display name is returned at
    once, with nothing but the fetch done;
  \<^item> on a warm cache, when the fetch fails with \<open>APIError\<close> or the fetched forwarder has
    another display name, the call is the search and creation run with the cache
    cleared.
  The ID in the slot is thus always one the backend has shown, in this call, for a
  forwarder under the default display name.
\<close>

theorem get_or_create_forwarder_cache:
  assumes run: "get_or_create_forwarder depth srv c display_name = (r, c')"
  shows
  "(target_name c display_name \<noteq> default_forwarder_display_name c \<longrightarrow>
      cached_default_forwarder_id c' = cached_default_forwarder_id c) \<and>
   (target_name c display_name = default_forwarder_display_name c \<longrightarrow>
      cache_empty c' \<or>
      (cached_default_forwarder_id c' = cached_default_forwarder_id c \<and>
         (\<exists>e. r = Inl e \<and> \<not> is_api_error e)) \<or>
      (cached_default_forwarder_id c' = cached_default_forwarder_id c \<and>
         (\<exists>j f. cached_default_forwarder_id c = Some j \<and> get_forwarder srv c j = (Inr f, c') \<and>
            r = Inr f \<and> names_default c f)) \<or>
      (\<exists>f j. r = Inr f \<and> forwarder_name_id f = Inr j \<and>
         cached_default_forwarder_id c' = Some j \<and>
         (names_default c f \<or>
          (\<exists>c1 c2. create_forwarder srv c1 (default_forwarder_display_name c) None False False =
               (Inr f, c2) \<and> c' = c2\<lparr>cached_default_forwarder_id := Some j\<rparr>)))) \<and>
   (target_name c display_name = default_forwarder_display_name c \<and>
    cached_default_forwarder_id c = Some cid \<and> cid \<noteq> [] \<and>
    get_forwarder srv c cid = (Inr fwd, cg) \<and> names_default c fwd \<longrightarrow>
      r = Inr fwd \<and> c' = cg) \<and>
   (target_name c display_name = default_forwarder_display_name c \<and>
    cached_default_forwarder_id c = Some cid \<and> cid \<noteq> [] \<and>
    get_forwarder srv c cid = (got, cg) \<and>
    ((\<exists>e. got = Inl e \<and> is_api_error e) \<or>
     (\<exists>kvs. got = Inr (JObj kvs) \<and> \<not> names_default c (JObj kvs))) \<longrightarrow>
      find_or_create depth srv (cg\<lparr>cached_default_forwarder_id := None\<rparr>)
        (default_forwarder_display_name c) True = (r, c'))"
proof (intro conjI impI)
  assume nd: "target_name c display_name \<noteq> default_forwarder_display_name c"
  with run have "find_or_create depth srv c (target_name c display_name) False = (r, c')"
    by (auto simp: get_or_create_forwarder_def Let_def split: option.splits)
  from find_or_create_cases [OF this]
  show "cached_default_forwarder_id c' = cached_default_forwarder_id c" by simp
next
  assume d: "target_name c display_name = default_forwarder_display_name c"
  let ?goal = "cache_empty c' \<or>
      (cached_default_forwarder_id c' = cached_default_forwarder_id c \<and>
         (\<exists>e. r = Inl e \<and> \<not> is_api_error e)) \<or>
      (cached_default_forwarder_id c' = cached_default_forwarder_id c \<and>
         (\<exists>j f. cached_default_forwarder_id c = Some j \<and> get_forwarder srv c j = (Inr f, c') \<and>
            r = Inr f \<and> names_default c f)) \<or>
      (\<exists>f j. r = Inr f \<and> forwarder_name_id f = Inr j \<and>
         cached_default_forwarder_id c' = Some j \<and>
         (names_default c f \<or>
          (\<exists>c1 c2. create_forwarder srv c1 (default_forwarder_display_name c) None False False =
               (Inr f, c2) \<and> c' = c2\<lparr>cached_default_forwarder_id := Some j\<rparr>)))"
  have resolved: ?goal
    if foc: "find_or_create depth srv c0 (default_forwarder_display_name c) True = (r, c')"
      and e0: "cache_empty c0" for c0
  proof -
    from find_or_create_cases [OF foc, THEN conjunct2, rule_format, OF TrueI] consider
      (err) e where "r = Inl e" "cached_default_forwarder_id c' = cached_default_forwarder_id c0"
    | (ok) f j where "r = Inr f" "forwarder_name_id f = Inr j"
        "cached_default_forwarder_id c' = Some j"
        "(\<exists>kvs. f = JObj kvs \<and>
            map_of kvs ''displayName'' = Some (JStr (default_forwarder_display_name c))) \<or>
         (\<exists>c1 c2. create_forwarder srv c1 (default_forwarder_display_name c) None False False =
             (Inr f, c2) \<and> c' = c2\<lparr>cached_default_forwarder_id := Some j\<rparr>)"
      by blast
    then show ?thesis
    proof cases
      case err
      with e0 have "cache_empty c'" by (simp add: cache_empty_def)
      then show ?thesis by simp
    next
      case ok
      from ok(4) have "names_default c f \<or>
         (\<exists>c1 c2. create_forwarder srv c1 (default_forwarder_display_name c) None False False =
             (Inr f, c2) \<and> c' = c2\<lparr>cached_default_forwarder_id := Some j\<rparr>)"
        by (auto simp: names_default_def)
      with ok(1-3) show ?thesis by blast
    qed
  qed
  show ?goal
  proof (cases "\<exists>j. cached_default_forwarder_id c = Some j \<and> j \<noteq> []")
    case False
    then have e0: "cache_empty c" by (auto simp: cache_empty_def split: option.splits)
    from False run d have "find_or_create depth srv c (default_forwarder_display_name c) True = (r, c')"
      by (auto simp: get_or_create_forwarder_def Let_def split: option.splits if_splits)
    from resolved [OF this e0] show ?thesis .
  next
    case True
    then obtain j where j: "cached_default_forwarder_id c = Some j" "j \<noteq> []" by blast
    obtain x c1 where tc: "try_cached srv c j = (x, c1)" by (cases "try_cached srv c j")
    obtain g c0 where gf: "get_forwarder srv c j = (g, c0)" by (cases "get_forwarder srv c j")
    have c0: "cached_default_forwarder_id c0 = cached_default_forwarder_id c"
      using get_forwarder_frame [OF gf]
      by (metis client.select_convs(7) client.surjective client.update_convs(8))
    note cases = try_cached_cases [OF tc gf]
    show ?thesis
    proof (cases x)
      case None
      with cases have c1: "c1 = c0\<lparr>cached_default_forwarder_id := None\<rparr>"
        by (auto split: sum.splits json.splits if_splits)
      from run d j tc None
      have "find_or_create depth srv c1 (default_forwarder_display_name c) True = (r, c')"
        by (simp add: get_or_create_forwarder_def Let_def)
      moreover have "cache_empty c1" using c1 by (simp add: cache_empty_def)
      ultimately show ?thesis by (rule resolved)
    next
      case (Some early)
      from run d j tc Some have rc: "r = early" "c' = c1"
        by (simp_all add: get_or_create_forwarder_def Let_def)
      from cases Some have c10: "c1 = c0" by (auto split: sum.splits json.splits if_splits)
      show ?thesis
      proof (cases early)
        case (Inl e)
        with cases Some have "\<not> is_api_error e"
          by (auto simp: is_api_error_def split: sum.splits json.splits if_splits)
        with Inl rc c10 c0 show ?thesis by simp
      next
        case (Inr f)
        with cases Some have "g = Inr f" "names_default c f"
          by (auto split: sum.splits json.splits if_splits)
        with Inr rc c10 c0 gf j show ?thesis by auto
      qed
    qed
  qed
next
  assume a: "target_name c display_name = default_forwarder_display_name c \<and>
    cached_default_forwarder_id c = Some cid \<and> cid \<noteq> [] \<and>
    get_forwarder srv c cid = (Inr fwd, cg) \<and> names_default c fwd"
  then have "try_cached srv c cid = (Some (Inr fwd), cg)"
    by (auto simp: try_cached_def names_default_def split: json.splits)
  with a run show "r = Inr fwd" "c' = cg"
    by (simp_all add: get_or_create_forwarder_def Let_def)
next
  assume a: "target_name c display_name = default_forwarder_display_name c \<and>
    cached_default_forwarder_id c = Some cid \<and> cid \<noteq> [] \<and>
    get_forwarder srv c cid = (got, cg) \<and>
    ((\<exists>e. got = Inl e \<and> is_api_error e) \<or>
     (\<exists>kvs. got = Inr (JObj kvs) \<and> \<not> names_default c (JObj kvs)))"
  then have gf: "get_forwarder srv c cid = (got, cg)" by simp
  obtain x cx where tc: "try_cached srv c cid = (x, cx)" by (cases "try_cached srv c cid")
  from try_cached_cases [OF tc gf] a
  have "x = None \<and> cx = cg\<lparr>cached_default_forwarder_id := None\<rparr>" by auto
  with tc have "try_cached srv c cid = (None, cg\<lparr>cached_default_forwarder_id := None\<rparr>)"
    by simp
  with a run show "find_or_create depth srv (cg\<lparr>cached_default_forwarder_id := None\<rparr>)
        (default_forwarder_display_name c) True = (r, c')"
    by (simp add: get_or_create_forwarder_def Let_def)
qed


lemma stale_get:
  "get_forwarder healing_backend stale_client ''old'' =
     (Inl (APIError ''Failed to get forwarder: body''),
      stale_client\<lparr>calls := [Get ''https://api/v1/inst/forwarders/old'' []]\<rparr>)"
  by (simp add: get_forwarder_def session_get_def healing_backend_def stale_client_def
      demo_client_def forwarders_url_def status_response_def)

lemma stale_run_cache: "cached_default_forwarder_id (snd (get_or_create_forwarder 2 healing_backend stale_client None)) = Some ''new''"
  by code_simp

theorem get_or_create_forwarder_cache_witness:
  "target_name stale_client None = default_forwarder_display_name stale_client \<and>
   cached_default_forwarder_id stale_client = Some ''old'' \<and>
   get_forwarder healing_backend stale_client ''old'' =
     (Inl (APIError ''Failed to get forwarder: body''),
      stale_client\<lparr>calls := [Get ''https://api/v1/inst/forwarders/old'' []]\<rparr>) \<and>
   find_or_create 2 healing_backend
     (stale_client\<lparr>calls := [Get ''https://api/v1/inst/forwarders/old'' []],
                   cached_default_forwarder_id := None\<rparr>)
     (default_forwarder_display_name stale_client) True =
     (Inr listed_default_forwarder,
      snd (get_or_create_forwarder 2 healing_backend stale_client None)) \<and>
   fst (get_or_create_forwarder 2 healing_backend stale_client None) =
     Inr listed_default_forwarder \<and>
   names_default stale_client listed_default_forwarder \<and>
   cached_default_forwarder_id (snd (get_or_create_forwarder 2 healing_backend stale_client None)) =
     Some ''new''"
proof -
  have run: "get_or_create_forwarder 2 healing_backend stale_client None =
      (fst (get_or_create_forwarder 2 healing_backend stale_client None),
       snd (get_or_create_forwarder 2 healing_backend stale_client None))" by simp
  have t: "target_name stale_client None = default_forwarder_display_name stale_client"
    by (simp add: target_name_def)
  have c: "cached_default_forwarder_id stale_client = Some ''old''"
    by (simp add: stale_client_def)
  have r: "fst (get_or_create_forwarder 2 healing_backend stale_client None) =
     Inr listed_default_forwarder" by code_simp
  have n: "names_default stale_client listed_default_forwarder" by code_simp
  from get_or_create_forwarder_cache [OF run, where cid = "''old''"
      and got = "Inl (APIError ''Failed to get forwarder: body'')"
      and cg = "stale_client\<lparr>calls := [Get ''https://api/v1/inst/forwarders/old'' []]\<rparr>"]
    t c stale_get r n stale_run_cache
  show ?thesis by (simp add: is_api_error_def)
qed

section \<open>Properties of log ingestion\<close>

subsection \<open>Which errors the forwarder directory can raise\<close>


















subsection \<open>The order of the two times\<close>

lemma lex_less_irrefl: "\<not> lex_less xs xs"
  by (induction xs) auto

lemma datetime_lt_irrefl: "datetime_lt d d = Inr False"
  by (simp add: datetime_lt_def lex_less_irrefl split: option.splits)

lemma datetime_lt_same_tzinfo:
  "tzinfo a = tzinfo b \<Longrightarrow>
     datetime_lt a b = Inr (lex_less (datetime_fields a) (datetime_fields b))"
  by (simp add: datetime_lt_def)

text \<open>
  In the night of a clock change the comparison of line 324 goes by the wall clock: a
  collection time of 02:30 is not before an entry time of 02:15 in the same zone, though
  its instant is 45 minutes earlier, and the logs are sent.
\<close>

lemma ingest_log_clock_change:
  "utc_microseconds after_change 3600 - utc_microseconds before_change 7200 = 2700 * 1000000 \<and>
   datetime_lt before_change after_change = Inr False \<and>
   length (issued demo_client
     (snd (ingest_log accept_all noon 1 (const_backend (ok_response (JObj []))) demo_client
             ''OKTA'' (Many []) (Some after_change) (Some before_change) None None
             (Some ''f'') False))) = 1"
proof (intro conjI)
  show "utc_microseconds after_change 3600 - utc_microseconds before_change 7200 =
      2700 * 1000000"
    by (simp add: utc_microseconds_def toordinal_def after_change_def before_change_def)
  show lt: "datetime_lt before_change after_change = Inr False"
    by (simp add: datetime_lt_def after_change_def before_change_def datetime_fields_def)
  show "length (issued demo_client
     (snd (ingest_log accept_all noon 1 (const_backend (ok_response (JObj []))) demo_client
             ''OKTA'' (Many []) (Some after_change) (Some before_change) None None
             (Some ''f'') False))) = 1"
    by (simp add: ingest_log_def accept_all_def lt submit_logs_def resolve_forwarder_id_def
        session_post_def issued_def demo_client_def const_backend_def ok_response_def
        response_json_def)
qed



subsection \<open>The times on the wire\<close>

text \<open>
  C7. \<open>format_timestamp\<close> never looks at the offset of the value, so the string on the
  wire is the wall-clock reading followed by Z, not the instant in UTC. At 12:00 in a
  zone five hours ahead of UTC, an instant that is 07:00 in UTC, \<open>ingest_log\<close> sends
  \<open>2024-01-01T12:00:00.000000Z\<close> for both times, the very string it sends for 12:00
  in UTC, five hours later.
\<close>

theorem ingest_log_timestamp_not_utc:
  "format_timestamp (d\<lparr>utcoffset := off\<rparr>) = format_timestamp d \<and>
   format_timestamp noon_plus5 = ''2024-01-01T12:00:00.000000Z'' \<and>
   format_timestamp noon_utc = ''2024-01-01T12:00:00.000000Z'' \<and>
   utc_microseconds noon_utc 0 - utc_microseconds noon_plus5 18000 = 18000 * 1000000 \<and>
   issued demo_client
     (snd (ingest_log accept_all noon 1 (const_backend (ok_response (JObj []))) demo_client
             ''OKTA'' (Single ''line'') (Some noon_plus5) (Some noon_plus5) None None
             (Some ''f'') False)) =
     [Post ''https://api/v1/inst/logTypes/OKTA/logs:import''
        (import_payload
           [JObj [(''data'', JStr ''bGluZQ==''),
                  (''log_entry_time'', JStr ''2024-01-01T12:00:00.000000Z''),
                  (''collection_time'', JStr ''2024-01-01T12:00:00.000000Z'')]]
           ''inst/forwarders/f'')]"
proof (intro conjI)
  show "format_timestamp (d\<lparr>utcoffset := off\<rparr>) = format_timestamp d"
    by (simp add: format_timestamp_def)
  show p5: "format_timestamp noon_plus5 = ''2024-01-01T12:00:00.000000Z''"
    by (simp add: format_timestamp_def noon_plus5_def noon_def pad2 pad4 pad6 digit_chars)
  show "format_timestamp noon_utc = ''2024-01-01T12:00:00.000000Z''"
    by (simp add: format_timestamp_def noon_utc_def noon_def pad2 pad4 pad6 digit_chars)
  show "utc_microseconds noon_utc 0 - utc_microseconds noon_plus5 18000 = 18000 * 1000000"
    by (simp add: utc_microseconds_def toordinal_def noon_utc_def noon_plus5_def noon_def)
  have b64: "b64encode ''line'' = ''bGluZQ==''"
    by (simp add: b64encode_def b64_char_def b64_alphabet_def)
  have lt: "datetime_lt noon_plus5 noon_plus5 = Inr False" by (rule datetime_lt_irrefl)
  show "issued demo_client
     (snd (ingest_log accept_all noon 1 (const_backend (ok_response (JObj []))) demo_client
             ''OKTA'' (Single ''line'') (Some noon_plus5) (Some noon_plus5) None None
             (Some ''f'') False)) =
     [Post ''https://api/v1/inst/logTypes/OKTA/logs:import''
        (import_payload
           [JObj [(''data'', JStr ''bGluZQ==''),
                  (''log_entry_time'', JStr ''2024-01-01T12:00:00.000000Z''),
                  (''collection_time'', JStr ''2024-01-01T12:00:00.000000Z'')]]
           ''inst/forwarders/f'')]"
    by (simp add: ingest_log_def accept_all_def lt submit_logs_def resolve_forwarder_id_def
        session_post_def issued_def p5 b64 log_entry_def log_messages_of_def logs_import_url_def
        demo_client_def const_backend_def ok_response_def response_json_def)
qed

section \<open>Properties of UDM ingestion\<close>

subsection \<open>The caller's objects\<close>

lemma length_store_append [simp]: "length (store_append h y x) = length h"
  by (simp add: store_append_def split: option.splits pyobj.splits)

lemma length_store_set [simp]: "length (store_set h y k x) = length h"
  by (simp add: store_set_def split: option.splits pyobj.splits)

lemma take_store_append: "n \<le> y \<Longrightarrow> take n (store_append h y x) = take n h"
  by (simp add: store_append_def split: option.splits pyobj.splits)

lemma take_store_set: "n \<le> y \<Longrightarrow> take n (store_set h y k x) = take n h"
  by (simp add: store_set_def split: option.splits pyobj.splits)

text \<open>A copier that only ever extends the store it is given.\<close>

lemma copy_list_items_prefix:
  assumes cp: "\<forall>m h v v' m' h'. cp m h v = Some (v', m', h') \<longrightarrow>
                 length h \<le> length h' \<and> take (length h) h' = h"
  shows "copy_list_items cp m h y xs = Some (m', h') \<Longrightarrow> n \<le> y \<Longrightarrow> n \<le> length h \<Longrightarrow>
           length h \<le> length h' \<and> take n h' = take n h"
proof (induction xs arbitrary: m h)
  case Nil
  then show ?case by simp
next
  case (Cons x xs)
  from Cons.prems(1) obtain x' m1 h1 where
    c: "cp m h x = Some (x', m1, h1)"
    and r: "copy_list_items cp m1 (store_append h1 y x') y xs = Some (m', h')"
    by (auto split: option.splits)
  from cp c have h1: "length h \<le> length h1" "take (length h) h1 = h" by auto
  have "take n h1 = take n h"
    using h1 Cons.prems(3) by (metis min.absorb1 take_take)
  moreover from Cons.IH [OF r Cons.prems(2)] h1 Cons.prems(3)
  have "length (store_append h1 y x') \<le> length h' \<and> take n h' = take n (store_append h1 y x')"
    by simp
  ultimately show ?case using h1 Cons.prems(2) by (simp add: take_store_append)
qed

lemma copy_dict_items_prefix:
  assumes cp: "\<forall>m h v v' m' h'. cp m h v = Some (v', m', h') \<longrightarrow>
                 length h \<le> length h' \<and> take (length h) h' = h"
  shows "copy_dict_items cp m h y kvs = Some (m', h') \<Longrightarrow> n \<le> y \<Longrightarrow> n \<le> length h \<Longrightarrow>
           length h \<le> length h' \<and> take n h' = take n h"
proof (induction kvs arbitrary: m h)
  case Nil
  then show ?case by simp
next
  case (Cons p ps)
  from Cons.prems(1) obtain x' m1 h1 where
    c: "cp m h (snd p) = Some (x', m1, h1)"
    and r: "copy_dict_items cp m1 (store_set h1 y (fst p) x') y ps = Some (m', h')"
    by (auto split: option.splits)
  from cp c have h1: "length h \<le> length h1" "take (length h) h1 = h" by auto
  have "take n h1 = take n h"
    using h1 Cons.prems(3) by (metis min.absorb1 take_take)
  moreover from Cons.IH [OF r Cons.prems(2)] h1 Cons.prems(3)
  have "length (store_set h1 y (fst p) x') \<le> length h' \<and>
        take n h' = take n (store_set h1 y (fst p) x')"
    by simp
  ultimately show ?case using h1 Cons.prems(2) by (simp add: take_store_set)
qed

lemma deepcopy_prefix:
  "deepcopy depth m h v = Some (v', m', h') \<Longrightarrow> length h \<le> length h' \<and> take (length h) h' = h"
proof (induction depth arbitrary: m h v v' m' h')
  case 0
  then show ?case by simp
next
  case (Suc depth)
  have ih: "\<forall>m h v v' m' h'. deepcopy depth m h v = Some (v', m', h') \<longrightarrow>
      length h \<le> length h' \<and> take (length h) h' = h"
    using Suc.IH by blast
  show ?case
  proof (cases v)
    case (PRef a)
    show ?thesis
    proof (cases "map_of m a")
      case (Some y)
      with Suc.prems PRef show ?thesis by simp
    next
      case None
      show ?thesis
      proof (cases "lookup h a")
        case lnone: None
        with Suc.prems PRef None show ?thesis by simp
      next
        case (Some ob)
        show ?thesis
        proof (cases ob)
          case (PList xs)
          with Suc.prems PRef None Some have
            "copy_list_items (deepcopy depth) ((a, length h) # m) (h @ [PList []]) (length h) xs =
               Some (m', h')"
            by (auto split: option.splits)
          from copy_list_items_prefix [where n = "length h", OF ih this]
          show ?thesis by simp
        next
          case (PDict kvs)
          with Suc.prems PRef None Some have
            "copy_dict_items (deepcopy depth) ((a, length h) # m) (h @ [PDict []]) (length h) kvs =
               Some (m', h')"
            by (auto split: option.splits)
          from copy_dict_items_prefix [where n = "length h", OF ih this]
          show ?thesis by simp
        qed
      qed
    qed
  qed (use Suc.prems in auto)
qed


lemma set_dict_set: "set (dict_set k x kvs) \<subseteq> insert (k, x) (set kvs)"
  by (induction kvs) auto

lemma closed_fromD:
  "closed_from n h \<Longrightarrow> n \<le> a \<Longrightarrow> a < length h \<Longrightarrow> refs_of_obj (h ! a) \<subseteq> {n..<length h}"
  by (simp add: closed_from_def)

lemma closed_from_update:
  assumes "closed_from n h" and "refs_of_obj ob \<subseteq> {n..<length h}"
  shows "closed_from n (h[y := ob])"
  unfolding closed_from_def
proof (intro allI impI)
  fix a assume a: "n \<le> a \<and> a < length (h[y := ob])"
  then have a': "n \<le> a" "a < length h" by simp_all
  show "refs_of_obj (h[y := ob] ! a) \<subseteq> {n..<length (h[y := ob])}"
  proof (cases "a = y")
    case True
    with a' assms(2) show ?thesis by simp
  next
    case False
    with closed_fromD [OF assms(1) a'] show ?thesis by simp
  qed
qed

lemma closed_from_store_append:
  assumes "closed_from n h" and "refs_of_val x \<subseteq> {n..<length h}" and "n \<le> y"
  shows "closed_from n (store_append h y x)"
proof (cases "lookup h y")
  case None
  with assms show ?thesis by (simp add: store_append_def)
next
  case (Some ob)
  then have y: "y < length h" "h ! y = ob" by (auto simp: lookup_def split: if_splits)
  show ?thesis
  proof (cases ob)
    case (PList ys)
    from closed_fromD [OF assms(1) assms(3) y(1)] y(2) PList
    have "refs_of_obj (PList ys) \<subseteq> {n..<length h}" by simp
    with assms(2) have "refs_of_obj (PList (ys @ [x])) \<subseteq> {n..<length h}"
      by (auto simp: refs_of_obj_def)
    from closed_from_update [OF assms(1) this] Some PList show ?thesis
      by (simp add: store_append_def)
  next
    case (PDict kvs)
    with Some assms show ?thesis by (simp add: store_append_def)
  qed
qed

lemma closed_from_store_set:
  assumes "closed_from n h" and "refs_of_val x \<subseteq> {n..<length h}" and "n \<le> y"
  shows "closed_from n (store_set h y k x)"
proof (cases "lookup h y")
  case None
  with assms show ?thesis by (simp add: store_set_def)
next
  case (Some ob)
  then have y: "y < length h" "h ! y = ob" by (auto simp: lookup_def split: if_splits)
  show ?thesis
  proof (cases ob)
    case (PDict kvs)
    from closed_fromD [OF assms(1) assms(3) y(1)] y(2) PDict
    have old: "refs_of_obj (PDict kvs) \<subseteq> {n..<length h}" by simp
    have "refs_of_obj (PDict (dict_set k x kvs)) \<subseteq> refs_of_val x \<union> refs_of_obj (PDict kvs)"
      using set_dict_set [of k x kvs] by (auto simp: refs_of_obj_def)
    with old assms(2) have "refs_of_obj (PDict (dict_set k x kvs)) \<subseteq> {n..<length h}" by blast
    from closed_from_update [OF assms(1) this] Some PDict show ?thesis
      by (simp add: store_set_def)
  next
    case (PList ys)
    with Some assms show ?thesis by (simp add: store_set_def)
  qed
qed

lemma copy_inv_store_append:
  "copy_inv n m h \<Longrightarrow> refs_of_val x \<subseteq> {n..<length h} \<Longrightarrow> n \<le> y \<Longrightarrow>
     copy_inv n m (store_append h y x)"
  by (simp add: copy_inv_def memo_from_def closed_from_store_append)

lemma copy_inv_store_set:
  "copy_inv n m h \<Longrightarrow> refs_of_val x \<subseteq> {n..<length h} \<Longrightarrow> n \<le> y \<Longrightarrow>
     copy_inv n m (store_set h y k x)"
  by (simp add: copy_inv_def memo_from_def closed_from_store_set)

lemma copy_list_items_inv:
  assumes cp: "\<forall>m h v v' m' h'. cp m h v = Some (v', m', h') \<and> copy_inv n m h \<longrightarrow>
                 copy_inv n m' h' \<and> refs_of_val v' \<subseteq> {n..<length h'} \<and> length h \<le> length h'"
  shows "copy_list_items cp m h y xs = Some (m', h') \<Longrightarrow> copy_inv n m h \<Longrightarrow> n \<le> y \<Longrightarrow>
           copy_inv n m' h' \<and> length h \<le> length h'"
proof (induction xs arbitrary: m h)
  case Nil
  then show ?case by simp
next
  case (Cons x xs)
  from Cons.prems(1) obtain x' m1 h1 where
    c: "cp m h x = Some (x', m1, h1)"
    and r: "copy_list_items cp m1 (store_append h1 y x') y xs = Some (m', h')"
    by (auto split: option.splits)
  from cp c Cons.prems(2) have
    s: "copy_inv n m1 h1" "refs_of_val x' \<subseteq> {n..<length h1}" "length h \<le> length h1"
    by blast+
  from Cons.IH [OF r copy_inv_store_append [OF s(1,2) Cons.prems(3)] Cons.prems(3)] s(3)
  show ?case by simp
qed

lemma copy_dict_items_inv:
  assumes cp: "\<forall>m h v v' m' h'. cp m h v = Some (v', m', h') \<and> copy_inv n m h \<longrightarrow>
                 copy_inv n m' h' \<and> refs_of_val v' \<subseteq> {n..<length h'} \<and> length h \<le> length h'"
  shows "copy_dict_items cp m h y kvs = Some (m', h') \<Longrightarrow> copy_inv n m h \<Longrightarrow> n \<le> y \<Longrightarrow>
           copy_inv n m' h' \<and> length h \<le> length h'"
proof (induction kvs arbitrary: m h)
  case Nil
  then show ?case by simp
next
  case (Cons p ps)
  from Cons.prems(1) obtain x' m1 h1 where
    c: "cp m h (snd p) = Some (x', m1, h1)"
    and r: "copy_dict_items cp m1 (store_set h1 y (fst p) x') y ps = Some (m', h')"
    by (auto split: option.splits)
  from cp c Cons.prems(2) have
    s: "copy_inv n m1 h1" "refs_of_val x' \<subseteq> {n..<length h1}" "length h \<le> length h1"
    by blast+
  from Cons.IH [OF r copy_inv_store_set [OF s(1,2) Cons.prems(3)] Cons.prems(3)] s(3)
  show ?case by simp
qed

lemma copy_inv_alloc:
  assumes "copy_inv n m h" and "refs_of_obj ob = {}"
  shows "copy_inv n ((a, length h) # m) (h @ [ob])"
proof -
  from assms(1) have n: "n \<le> length h" and mf: "memo_from n m h" and cl: "closed_from n h"
    by (simp_all add: copy_inv_def)
  have "memo_from n ((a, length h) # m) (h @ [ob])"
    using n mf by (auto simp: memo_from_def)
  moreover have "closed_from n (h @ [ob])"
    unfolding closed_from_def
  proof (intro allI impI)
    fix b assume b: "n \<le> b \<and> b < length (h @ [ob])"
    show "refs_of_obj ((h @ [ob]) ! b) \<subseteq> {n..<length (h @ [ob])}"
    proof (cases "b < length h")
      case True
      with closed_fromD [OF cl] b have "refs_of_obj (h ! b) \<subseteq> {n..<length h}" by simp
      with True show ?thesis by (auto simp: nth_append)
    next
      case False
      with b have "b = length h" by simp
      with assms(2) show ?thesis by simp
    qed
  qed
  ultimately show ?thesis using n by (simp add: copy_inv_def)
qed

lemma deepcopy_inv:
  "deepcopy depth m h v = Some (v', m', h') \<Longrightarrow> copy_inv n m h \<Longrightarrow>
     copy_inv n m' h' \<and> refs_of_val v' \<subseteq> {n..<length h'} \<and> length h \<le> length h'"
proof (induction depth arbitrary: m h v v' m' h')
  case 0
  then show ?case by simp
next
  case (Suc depth)
  have ih: "\<forall>m h v v' m' h'. deepcopy depth m h v = Some (v', m', h') \<and> copy_inv n m h \<longrightarrow>
      copy_inv n m' h' \<and> refs_of_val v' \<subseteq> {n..<length h'} \<and> length h \<le> length h'"
    using Suc.IH by blast
  from Suc.prems(2) have n: "n \<le> length h" by (simp add: copy_inv_def)
  show ?case
  proof (cases v)
    case (PRef a)
    show ?thesis
    proof (cases "map_of m a")
      case (Some y)
      then have "(a, y) \<in> set m" by (rule map_of_SomeD)
      with Suc.prems(2) have "n \<le> y \<and> y < length h"
        by (auto simp: copy_inv_def memo_from_def)
      with Suc.prems PRef Some show ?thesis by (auto simp: refs_of_val_def)
    next
      case None
      show ?thesis
      proof (cases "lookup h a")
        case lnone: None
        with Suc.prems PRef None show ?thesis by simp
      next
        case (Some ob)
        show ?thesis
        proof (cases ob)
          case (PList xs)
          with Suc.prems PRef None Some have
            r: "copy_list_items (deepcopy depth) ((a, length h) # m) (h @ [PList []]) (length h) xs =
               Some (m', h')" and v': "v' = PRef (length h)"
            by (auto split: option.splits)
          have "copy_inv n ((a, length h) # m) (h @ [PList []])"
            using Suc.prems(2) by (rule copy_inv_alloc) (simp add: refs_of_obj_def)
          from copy_list_items_inv [OF ih r this n] v' n show ?thesis
            by (simp add: refs_of_val_def)
        next
          case (PDict kvs)
          with Suc.prems PRef None Some have
            r: "copy_dict_items (deepcopy depth) ((a, length h) # m) (h @ [PDict []]) (length h) kvs =
               Some (m', h')" and v': "v' = PRef (length h)"
            by (auto split: option.splits)
          have "copy_inv n ((a, length h) # m) (h @ [PDict []])"
            using Suc.prems(2) by (rule copy_inv_alloc) (simp add: refs_of_obj_def)
          from copy_dict_items_inv [OF ih r this n] v' n show ?thesis
            by (simp add: refs_of_val_def)
        qed
      qed
    qed
  qed (use Suc.prems in \<open>auto simp: refs_of_val_def\<close>)
qed


lemma backfill_metadata_frame:
  assumes "closed_from n (heap st)" and "n \<le> m"
  shows "length (heap (backfill_metadata env add st m)) = length (heap st) \<and>
         take n (heap (backfill_metadata env add st m)) = take n (heap st) \<and>
         closed_from n (heap (backfill_metadata env add st m))"
proof -
  have step: "length (store_set h m k (PStr s)) = length h \<and>
      take n (store_set h m k (PStr s)) = take n h \<and>
      (closed_from n h \<longrightarrow> closed_from n (store_set h m k (PStr s)))" for h k s
    using assms(2) by (simp add: take_store_set closed_from_store_set refs_of_val_def)
  show ?thesis
    using assms(1) step by (simp add: backfill_metadata_def Let_def)
qed

lemma backfill_event_frame:
  assumes "backfill_event env add st ev = (x, st')" and "closed_from n (heap st)"
    and "refs_of_val ev \<subseteq> {n..<length (heap st)}"
  shows "length (heap st') = length (heap st) \<and> take n (heap st') = take n (heap st) \<and>
         closed_from n (heap st')"
proof (cases "\<exists>e kvs m. ev = PRef e \<and> lookup (heap st) e = Some (PDict kvs) \<and>
          map_of kvs ''metadata'' = Some (PRef m) \<and> is_dict (heap st) (PRef m)")
  case False
  with assms(1) have "st' = st"
    by (auto simp: backfill_event_def is_dict_def
        split: if_splits pyval.splits option.splits pyobj.splits)
  with assms(2) show ?thesis by simp
next
  case True
  then obtain e kvs m where
    e: "ev = PRef e" "lookup (heap st) e = Some (PDict kvs)"
       "map_of kvs ''metadata'' = Some (PRef m)" "is_dict (heap st) (PRef m)"
    by blast
  from e(1) assms(3) have en: "n \<le> e" by (simp add: refs_of_val_def)
  from e(2) have el: "e < length (heap st)" "heap st ! e = PDict kvs"
    by (auto simp: lookup_def split: if_splits)
  from e(3) have "(''metadata'', PRef m) \<in> set kvs" by (rule map_of_SomeD)
  then have "m \<in> refs_of_obj (PDict kvs)"
    by (force simp: refs_of_obj_def refs_of_val_def)
  with closed_fromD [OF assms(2) en el(1)] el(2) have mn: "n \<le> m" by auto
  from assms(1) e have "st' = backfill_metadata env add st m"
    by (simp add: backfill_event_def is_dict_def)
  with backfill_metadata_frame [OF assms(2) mn] show ?thesis by simp
qed

lemma backfill_events_frame:
  "backfill_events env add st evs = (x, st') \<Longrightarrow> closed_from n (heap st) \<Longrightarrow>
   \<forall>ev \<in> set evs. refs_of_val ev \<subseteq> {n..<length (heap st)} \<Longrightarrow>
     length (heap st') = length (heap st) \<and> take n (heap st') = take n (heap st)"
proof (induction evs arbitrary: st)
  case Nil
  then show ?case by simp
next
  case (Cons ev evs)
  obtain y st1 where b: "backfill_event env add st ev = (y, st1)"
    by (cases "backfill_event env add st ev")
  from Cons.prems(3) have "refs_of_val ev \<subseteq> {n..<length (heap st)}" by simp
  from backfill_event_frame [OF b Cons.prems(2) this] have
    f: "length (heap st1) = length (heap st)" "take n (heap st1) = take n (heap st)"
       "closed_from n (heap st1)" by simp_all
  show ?case
  proof (cases y)
    case (Some e)
    with Cons.prems(1) b f show ?thesis by simp
  next
    case None
    with Cons.prems(1) b have r: "backfill_events env add st1 evs = (x, st')" by simp
    from Cons.prems(3) f(1) have "\<forall>ev \<in> set evs. refs_of_val ev \<subseteq> {n..<length (heap st1)}"
      by simp
    from Cons.IH [OF r f(3) this] f show ?thesis by simp
  qed
qed

lemma iter_val_refs:
  assumes "iter_val h v = Inr evs" and "closed_from n h" and "refs_of_val v \<subseteq> {n..<length h}"
  shows "\<forall>ev \<in> set evs. refs_of_val ev \<subseteq> {n..<length h}"
proof (cases v)
  case (PRef a)
  with assms(3) have a: "n \<le> a" "a < length h" by (simp_all add: refs_of_val_def)
  from closed_fromD [OF assms(2) a] have c: "refs_of_obj (h ! a) \<subseteq> {n..<length h}" .
  show ?thesis
  proof (cases "h ! a")
    case (PList xs)
    with assms(1) PRef a have "evs = xs" by (simp add: iter_val_def lookup_def)
    with c PList show ?thesis by (auto simp: refs_of_obj_def)
  next
    case (PDict kvs)
    with assms(1) PRef a have "evs = map (\<lambda>p. PStr (fst p)) kvs"
      by (simp add: iter_val_def lookup_def)
    then show ?thesis by (auto simp: refs_of_val_def)
  qed
qed (use assms(1) in \<open>auto simp: iter_val_def refs_of_val_def\<close>)

lemma prepare_udm_events_frame:
  assumes "prepare_udm_events env depth h udm_events add = (r, h')"
  shows "length h \<le> length h' \<and> take (length h) h' = h"
proof -
  obtain ev1 h1 where nz: "normalize_events h udm_events = (ev1, h1)"
    by (cases "normalize_events h udm_events")
  then have h1: "length h \<le> length h1" "take (length h) h1 = h"
    by (auto simp: normalize_events_def split: if_splits)
  show ?thesis
  proof (cases "truthy_val h1 ev1")
    case False
    with assms nz h1 show ?thesis by (simp add: prepare_udm_events_def)
  next
    case True
    show ?thesis
    proof (cases "deepcopy depth [] h1 ev1")
      case None
      with assms nz True h1 show ?thesis by (simp add: prepare_udm_events_def)
    next
      case (Some res)
      then obtain ec m h2 where dc: "deepcopy depth [] h1 ev1 = Some (ec, m, h2)"
        by (cases res) auto
      from deepcopy_prefix [OF dc] have h2: "length h1 \<le> length h2" "take (length h1) h2 = h1"
        by simp_all
      have "take (length h) h2 = take (length h) (take (length h1) h2)"
        using h1(1) by (simp add: min.absorb1)
      with h2 h1 have p2: "length h \<le> length h2" "take (length h) h2 = h" by simp_all
      have "copy_inv (length h1) [] h1"
        by (auto simp: copy_inv_def memo_from_def closed_from_def)
      from deepcopy_inv [OF dc this] have
        inv: "closed_from (length h1) h2" "refs_of_val ec \<subseteq> {length h1..<length h2}"
        by (simp_all add: copy_inv_def)
      show ?thesis
      proof (cases "iter_val h2 ec")
        case (Inl e)
        with assms nz True dc p2 show ?thesis by (simp add: prepare_udm_events_def)
      next
        case (Inr evs)
        obtain x st where
          b: "backfill_events env add \<lparr>heap = h2, clock_reads = 0, uuid_reads = 0\<rparr> evs = (x, st)"
          by (cases "backfill_events env add \<lparr>heap = h2, clock_reads = 0, uuid_reads = 0\<rparr> evs")
        from iter_val_refs [OF Inr inv]
        have "\<forall>ev \<in> set evs. refs_of_val ev \<subseteq>
            {length h1..<length (heap \<lparr>heap = h2, clock_reads = 0, uuid_reads = 0\<rparr>)}" by simp
        from backfill_events_frame [OF b _ this] inv(1)
        have f: "length (heap st) = length h2" "take (length h1) (heap st) = take (length h1) h2"
          by simp_all
        have "take (length h) (heap st) = take (length h) (take (length h1) (heap st))"
          using h1(1) by (simp add: min.absorb1)
        with f h2 h1 have p3: "length h \<le> length (heap st)" "take (length h) (heap st) = h"
          by simp_all
        have "h' = heap st"
          using assms nz True dc Inr b
          by (cases x) (simp_all add: prepare_udm_events_def)
        with p3 show ?thesis by simp
      qed
    qed
  qed
qed


text \<open>
  C6. Whatever the input and however the call ends, \<open>ingest_udm\<close> leaves every object
  that was in the store before the call as it was: the store after the call is the
  store before it followed by the objects the call allocated. The single-event wrapper
  list, the deep copy and every back-filled timestamp and ID are among the new objects,
  also when the validation of a later event fails after earlier copies were filled in.
  So whatever the caller can reach from its event or its list is equal, in depth,
  before and after.
\<close>

theorem ingest_udm_input_unchanged:
  "take (length h) (snd (snd (ingest_udm env depth srv c h udm_events add_missing_ids))) = h \<and>
   length h \<le> length (snd (snd (ingest_udm env depth srv c h udm_events add_missing_ids)))"
proof -
  obtain r h' where p: "prepare_udm_events env depth h udm_events add_missing_ids = (r, h')"
    by (cases "prepare_udm_events env depth h udm_events add_missing_ids")
  have "snd (snd (ingest_udm env depth srv c h udm_events add_missing_ids)) = h'"
    using p by (cases r) (simp_all add: ingest_udm_def split: prod.splits)
  with prepare_udm_events_frame [OF p] show ?thesis by simp
qed

lemma demo_event_timestamp: "event_timestamp noon 19800 = ''2024-01-01T12:00:00+05:30''"
  by (simp add: event_timestamp_def isoformat_def format_offset_def str_replace_def noon_def
      pad2 pad4 pad6 digit_chars)

lemma prepare_demo:
  "prepare_udm_events demo_env 5 demo_store (PRef 0) True = (Inr demo_body, demo_store_after)"
proof -
  have d: "(5::nat) = Suc (Suc (Suc (Suc (Suc 0))))" by simp
  show ?thesis
    unfolding d
    by (simp add: prepare_udm_events_def normalize_events_def is_dict_def lookup_def
        demo_store_def truthy_val_def iter_val_def store_append_def store_set_def nth_append
        backfill_event_def backfill_metadata_def has_key_def demo_env_def demo_event_timestamp
        udm_body_def demo_body_def demo_store_after_def)
qed


text \<open>
  On the one-event store the copy gets the timestamp and the ID and the event of the
  caller does not. With a second event that has no \<open>metadata\<close>, the call fails after the
  copy of the first event was filled in, and the caller's objects are as before.
\<close>

lemma prepare_second_event_invalid:
  "prepare_udm_events demo_env 5 (demo_store @ [PDict [], PList [PRef 0, PRef 2]]) (PRef 3) True =
     (Inl (ValueError ''UDM event missing required 'metadata' section''),
      demo_store @ [PDict [], PList [PRef 0, PRef 2]] @
      [PList [PRef 5, PRef 7], PDict [(''metadata'', PRef 6)],
       PDict [(''event_type'', PStr ''LOGIN''),
              (''event_timestamp'', PStr ''2024-01-01T12:00:00+05:30''),
              (''id'', PStr ''uuid'')],
       PDict []])"
proof -
  have d: "(5::nat) = Suc (Suc (Suc (Suc (Suc 0))))" by simp
  show ?thesis
    unfolding d
    by (simp add: prepare_udm_events_def normalize_events_def is_dict_def lookup_def
        demo_store_def truthy_val_def iter_val_def store_append_def store_set_def nth_append
        backfill_event_def backfill_metadata_def has_key_def demo_env_def demo_event_timestamp
        quote_def)
qed

theorem ingest_udm_input_unchanged_witness:
  "snd (snd (ingest_udm demo_env 5 (const_backend (ok_response (JObj []))) demo_client
               demo_store (PRef 0) True)) = demo_store_after \<and>
   take (length demo_store) demo_store_after = demo_store \<and>
   fst (ingest_udm demo_env 5 (const_backend (ok_response (JObj []))) demo_client
          (demo_store @ [PDict [], PList [PRef 0, PRef 2]]) (PRef 3) True) =
     Inl (ValueError ''UDM event missing required 'metadata' section'') \<and>
   take 4 (snd (snd (ingest_udm demo_env 5 (const_backend (ok_response (JObj []))) demo_client
                       (demo_store @ [PDict [], PList [PRef 0, PRef 2]]) (PRef 3) True))) =
     demo_store @ [PDict [], PList [PRef 0, PRef 2]]"
proof -
  have a: "snd (snd (ingest_udm demo_env 5 (const_backend (ok_response (JObj []))) demo_client
               demo_store (PRef 0) True)) = demo_store_after"
    by (simp add: ingest_udm_def prepare_demo session_post_def const_backend_def ok_response_def)
  have b: "fst (ingest_udm demo_env 5 (const_backend (ok_response (JObj []))) demo_client
          (demo_store @ [PDict [], PList [PRef 0, PRef 2]]) (PRef 3) True) =
     Inl (ValueError ''UDM event missing required 'metadata' section'')"
    by (simp add: ingest_udm_def prepare_second_event_invalid)
  have l: "length (demo_store @ [PDict [], PList [PRef 0, PRef 2]]) = 4"
    by (simp add: demo_store_def)
  from ingest_udm_input_unchanged [of demo_store demo_env 5
      "const_backend (ok_response (JObj []))" demo_client "PRef 0" True]
    ingest_udm_input_unchanged [of "demo_store @ [PDict [], PList [PRef 0, PRef 2]]" demo_env 5
      "const_backend (ok_response (JObj []))" demo_client "PRef 3" True]
    a b l
  show ?thesis by simp
qed

section \<open>Properties of both ingestion paths\<close>

subsection \<open>An empty batch\<close>

text \<open>
  C10. With a log type that is valid or forced, times in order and a forwarder ID
  given, \<open>ingest_log\<close> on the empty list of messages issues exactly one request: a
  \<open>post\<close> to the import URL of the log type whose body is
  \<open>{"inline_source": {"logs": [], "forwarder": ...}}\<close>, with the forwarder's resource
  name. It raises no \<open>ValueError\<close>, and it returns the decoded body when the status is
  200 and the body decodes. \<open>ingest_udm\<close> on an empty list of events
  fails with \<open>ValueError\<close> before anything else happens.
\<close>

theorem ingest_log_empty_list:
  assumes "is_valid_log_type log_type \<or> force_log_type"
    and "datetime_lt (case collection_time of None \<Rightarrow> now | Some t \<Rightarrow> t)
           (case log_entry_time of None \<Rightarrow> now | Some t \<Rightarrow> t) = Inr False"
  shows "issued c (snd (ingest_log is_valid_log_type now depth srv c log_type (Many [])
                     log_entry_time collection_time namespace labels (Some fid)
                     force_log_type)) =
           [Post (base_url c @ ''/'' @ instance_id c @ ''/logTypes/'' @ log_type @ ''/logs:import'')
              (JObj [(''inline_source'',
                     JObj [(''logs'', JArr []),
                           (''forwarder'',
                              JStr (if CHR ''/'' \<notin> set fid
                                    then instance_id c @ ''/forwarders/'' @ fid else fid))])])] \<and>
         (status_code (srv (calls c) (Post (base_url c @ ''/'' @ instance_id c @ ''/logTypes/'' @ log_type @ ''/logs:import'')
              (JObj [(''inline_source'',
                     JObj [(''logs'', JArr []),
                           (''forwarder'',
                              JStr (if CHR ''/'' \<notin> set fid
                                    then instance_id c @ ''/forwarders/'' @ fid else fid))])]))) = 200 \<and>
          json_body (srv (calls c) (Post (base_url c @ ''/'' @ instance_id c @ ''/logTypes/'' @ log_type @ ''/logs:import'')
              (JObj [(''inline_source'',
                     JObj [(''logs'', JArr []),
                           (''forwarder'',
                              JStr (if CHR ''/'' \<notin> set fid
                                    then instance_id c @ ''/forwarders/'' @ fid else fid))])]))) = Some j \<longrightarrow>
            fst (ingest_log is_valid_log_type now depth srv c log_type (Many [])
                   log_entry_time collection_time namespace labels (Some fid)
                   force_log_type) = Inr j) \<and>
         \<not> (\<exists>e. fst (ingest_log is_valid_log_type now depth srv c log_type (Many [])
                        log_entry_time collection_time namespace labels (Some fid)
                        force_log_type) = Inl e \<and> is_value_error e) \<and>
         (lookup h a = Some (PList []) \<longrightarrow>
            ingest_udm env depth srv c h (PRef a) add_missing_ids =
              (Inl (ValueError ''No UDM events provided''), c, h))"
proof -
  let ?rq = "Post (base_url c @ ''/'' @ instance_id c @ ''/logTypes/'' @ log_type @ ''/logs:import'')
              (JObj [(''inline_source'',
                     JObj [(''logs'', JArr []),
                           (''forwarder'',
                              JStr (if CHR ''/'' \<notin> set fid
                                    then instance_id c @ ''/forwarders/'' @ fid else fid))])])"
  let ?r = "srv (calls c) ?rq"
  have run: "ingest_log is_valid_log_type now depth srv c log_type (Many [])
               log_entry_time collection_time namespace labels (Some fid) force_log_type =
             (if status_code ?r \<noteq> 200
              then Inl (APIError (''Failed to ingest log: '' @ resp_text ?r))
              else response_json ?r, c\<lparr>calls := calls c @ [?rq]\<rparr>)"
    using assms
    by (auto simp: ingest_log_def submit_logs_def resolve_forwarder_id_def Let_def
        session_post_def log_messages_of_def import_payload_def logs_import_url_def)
  have udm: "ingest_udm env depth srv c h (PRef a) add_missing_ids =
      (Inl (ValueError ''No UDM events provided''), c, h)" if "lookup h a = Some (PList [])"
    using that
    by (simp add: ingest_udm_def prepare_udm_events_def normalize_events_def is_dict_def
        truthy_val_def)
  show ?thesis
    unfolding run using udm
    by (auto simp: issued_def response_json_def is_value_error_def split: option.splits)
qed

theorem ingest_log_empty_list_witness:
  "issued demo_client
     (snd (ingest_log accept_all noon 1 (const_backend (ok_response (JObj [(''ok'', JBool True)])))
             demo_client ''OKTA'' (Many []) None None None None (Some ''f'') False)) =
     [Post ''https://api/v1/inst/logTypes/OKTA/logs:import''
        (JObj [(''inline_source'',
               JObj [(''logs'', JArr []), (''forwarder'', JStr ''inst/forwarders/f'')])])] \<and>
   fst (ingest_log accept_all noon 1 (const_backend (ok_response (JObj [(''ok'', JBool True)])))
          demo_client ''OKTA'' (Many []) None None None None (Some ''f'') False) =
     Inr (JObj [(''ok'', JBool True)]) \<and>
   ingest_udm demo_env 1 (const_backend (ok_response (JObj [(''ok'', JBool True)])))
       demo_client [PList []] (PRef 0) True =
     (Inl (ValueError ''No UDM events provided''), demo_client, [PList []])"
proof -
  have v: "accept_all ''OKTA'' \<or> False" by (simp add: accept_all_def)
  have t: "datetime_lt (case None of None \<Rightarrow> noon | Some t \<Rightarrow> t)
             (case None of None \<Rightarrow> noon | Some t \<Rightarrow> t) = Inr False"
    by (simp add: datetime_lt_irrefl)
  have l: "lookup [PList []] 0 = Some (PList [])" by (simp add: lookup_def)
  note th = ingest_log_empty_list [where is_valid_log_type = accept_all and log_type = "''OKTA''"
      and force_log_type = False and collection_time = None and log_entry_time = None
      and now = noon and c = demo_client and depth = 1
      and srv = "const_backend (ok_response (JObj [(''ok'', JBool True)]))" and fid = "''f''"
      and j = "JObj [(''ok'', JBool True)]" and h = "[PList []]" and a = 0 and env = demo_env
      and add_missing_ids = True and namespace = None and labels = None, OF v t]
  have u: "ingest_udm demo_env 1 (const_backend (ok_response (JObj [(''ok'', JBool True)])))
      demo_client [PList []] (PRef 0) True =
     (Inl (ValueError ''No UDM events provided''), demo_client, [PList []])"
    using th l by simp
  from th u show ?thesis
    by (simp add: const_backend_def ok_response_def demo_client_def)
qed

subsection \<open>Which status is a success\<close>

text \<open>
  C5, as amended. \<open>create_forwarder\<close>, \<open>get_forwarder\<close>, each page request of
  \<open>list_forwarders\<close> and \<open>ingest_log\<close> take the status 200 alone as success: on any
  other status, 201 or 204 included, they raise \<open>APIError\<close> with the text of the
  response, and on 200 they go on with the decoded body. \<open>ingest_udm\<close> raises
  \<open>APIError\<close> exactly when the status is 400 or more, and returns a result on every
  status below 400.
\<close>

theorem status_checks:
  "fst (create_forwarder srv c display_name metadata upload_compression enable_server) =
     (if status_code (srv (calls c) (Post (forwarders_url c)
            (create_payload display_name metadata upload_compression enable_server))) \<noteq> 200
      then Inl (APIError (''Failed to create forwarder: '' @
             resp_text (srv (calls c) (Post (forwarders_url c)
               (create_payload display_name metadata upload_compression enable_server)))))
      else response_json (srv (calls c) (Post (forwarders_url c)
             (create_payload display_name metadata upload_compression enable_server)))) \<and>
   fst (get_forwarder srv c forwarder_id) =
     (if status_code (srv (calls c) (Get (forwarders_url c @ ''/'' @ forwarder_id) [])) \<noteq> 200
      then Inl (APIError (''Failed to get forwarder: '' @
             resp_text (srv (calls c) (Get (forwarders_url c @ ''/'' @ forwarder_id) []))))
      else response_json (srv (calls c) (Get (forwarders_url c @ ''/'' @ forwarder_id) []))) \<and>
   (status_code (srv (calls c) (Get (forwarders_url c) (list_params page_size page_token))) \<noteq> 200 \<longrightarrow>
      fst (list_forwarders (Suc depth) srv c page_size page_token) =
        Inl (APIError (''Failed to list forwarders: '' @
          resp_text (srv (calls c) (Get (forwarders_url c) (list_params page_size page_token)))))) \<and>
   (status_code (srv (calls c) (Get (forwarders_url c) (list_params page_size page_token))) = 200 \<and>
    json_body (srv (calls c) (Get (forwarders_url c) (list_params page_size page_token))) =
      Some (JObj kvs) \<and> map_of kvs ''nextPageToken'' = None \<longrightarrow>
      fst (list_forwarders (Suc depth) srv c page_size page_token) = Inr (JObj kvs)) \<and>
   ((is_valid_log_type log_type \<or> force_log_type) \<and>
    datetime_lt collection_time log_entry_time = Inr False \<longrightarrow>
      fst (ingest_log is_valid_log_type now depth srv c log_type log_message
             (Some log_entry_time) (Some collection_time) namespace labels (Some fid)
             force_log_type) =
        (if status_code (srv (calls c) (Post (logs_import_url c log_type)
               (import_payload
                  (map (log_entry (format_timestamp log_entry_time)
                          (format_timestamp collection_time) namespace labels)
                     (log_messages_of log_message))
                  (if CHR ''/'' \<notin> set fid then instance_id c @ ''/forwarders/'' @ fid
                   else fid)))) \<noteq> 200
         then Inl (APIError (''Failed to ingest log: '' @
                resp_text (srv (calls c) (Post (logs_import_url c log_type)
                  (import_payload
                     (map (log_entry (format_timestamp log_entry_time)
                             (format_timestamp collection_time) namespace labels)
                        (log_messages_of log_message))
                     (if CHR ''/'' \<notin> set fid then instance_id c @ ''/forwarders/'' @ fid
                      else fid))))))
         else response_json (srv (calls c) (Post (logs_import_url c log_type)
                (import_payload
                   (map (log_entry (format_timestamp log_entry_time)
                           (format_timestamp collection_time) namespace labels)
                      (log_messages_of log_message))
                   (if CHR ''/'' \<notin> set fid then instance_id c @ ''/forwarders/'' @ fid
                    else fid)))))) \<and>
   (prepare_udm_events env depth h udm_events add_missing_ids = (Inr body, h') \<longrightarrow>
      fst (ingest_udm env depth srv c h udm_events add_missing_ids) =
        (if 400 \<le> status_code (srv (calls c) (Post (udm_import_url c) body))
         then Inl (APIError (''Failed to ingest UDM events: '' @
                resp_text (srv (calls c) (Post (udm_import_url c) body))))
         else Inr (udm_response_data (srv (calls c) (Post (udm_import_url c) body)))))"
proof (intro conjI impI)
  show "fst (create_forwarder srv c display_name metadata upload_compression enable_server) =
     (if status_code (srv (calls c) (Post (forwarders_url c)
            (create_payload display_name metadata upload_compression enable_server))) \<noteq> 200
      then Inl (APIError (''Failed to create forwarder: '' @
             resp_text (srv (calls c) (Post (forwarders_url c)
               (create_payload display_name metadata upload_compression enable_server)))))
      else response_json (srv (calls c) (Post (forwarders_url c)
             (create_payload display_name metadata upload_compression enable_server))))"
    by (simp add: create_forwarder_def session_post_def)
  show "fst (get_forwarder srv c forwarder_id) =
     (if status_code (srv (calls c) (Get (forwarders_url c @ ''/'' @ forwarder_id) [])) \<noteq> 200
      then Inl (APIError (''Failed to get forwarder: '' @
             resp_text (srv (calls c) (Get (forwarders_url c @ ''/'' @ forwarder_id) []))))
      else response_json (srv (calls c) (Get (forwarders_url c @ ''/'' @ forwarder_id) [])))"
    by (simp add: get_forwarder_def session_get_def)
next
  assume "status_code (srv (calls c) (Get (forwarders_url c) (list_params page_size page_token))) \<noteq> 200"
  then show "fst (list_forwarders (Suc depth) srv c page_size page_token) =
        Inl (APIError (''Failed to list forwarders: '' @
          resp_text (srv (calls c) (Get (forwarders_url c) (list_params page_size page_token)))))"
    by (simp add: session_get_def)
next
  assume "status_code (srv (calls c) (Get (forwarders_url c) (list_params page_size page_token))) = 200 \<and>
    json_body (srv (calls c) (Get (forwarders_url c) (list_params page_size page_token))) =
      Some (JObj kvs) \<and> map_of kvs ''nextPageToken'' = None"
  then show "fst (list_forwarders (Suc depth) srv c page_size page_token) = Inr (JObj kvs)"
    by (simp add: session_get_def response_json_def)
next
  assume "(is_valid_log_type log_type \<or> force_log_type) \<and>
    datetime_lt collection_time log_entry_time = Inr False"
  then show "fst (ingest_log is_valid_log_type now depth srv c log_type log_message
             (Some log_entry_time) (Some collection_time) namespace labels (Some fid)
             force_log_type) =
        (if status_code (srv (calls c) (Post (logs_import_url c log_type)
               (import_payload
                  (map (log_entry (format_timestamp log_entry_time)
                          (format_timestamp collection_time) namespace labels)
                     (log_messages_of log_message))
                  (if CHR ''/'' \<notin> set fid then instance_id c @ ''/forwarders/'' @ fid
                   else fid)))) \<noteq> 200
         then Inl (APIError (''Failed to ingest log: '' @
                resp_text (srv (calls c) (Post (logs_import_url c log_type)
                  (import_payload
                     (map (log_entry (format_timestamp log_entry_time)
                             (format_timestamp collection_time) namespace labels)
                        (log_messages_of log_message))
                     (if CHR ''/'' \<notin> set fid then instance_id c @ ''/forwarders/'' @ fid
                      else fid))))))
         else response_json (srv (calls c) (Post (logs_import_url c log_type)
                (import_payload
                   (map (log_entry (format_timestamp log_entry_time)
                           (format_timestamp collection_time) namespace labels)
                      (log_messages_of log_message))
                   (if CHR ''/'' \<notin> set fid then instance_id c @ ''/forwarders/'' @ fid
                    else fid)))))"
    by (auto simp: ingest_log_def submit_logs_def resolve_forwarder_id_def Let_def
        session_post_def)
next
  assume "prepare_udm_events env depth h udm_events add_missing_ids = (Inr body, h')"
  then show "fst (ingest_udm env depth srv c h udm_events add_missing_ids) =
        (if 400 \<le> status_code (srv (calls c) (Post (udm_import_url c) body))
         then Inl (APIError (''Failed to ingest UDM events: '' @
                resp_text (srv (calls c) (Post (udm_import_url c) body))))
         else Inr (udm_response_data (srv (calls c) (Post (udm_import_url c) body))))"
    by (simp add: ingest_udm_def session_post_def)
qed

theorem status_checks_witness:
  "fst (create_forwarder (const_backend (status_response 201)) demo_client ''n'' None False False) =
     Inl (APIError ''Failed to create forwarder: body'') \<and>
   fst (get_forwarder (const_backend (status_response 200)) demo_client ''f'') = Inr (JObj []) \<and>
   fst (list_forwarders 1 (const_backend (status_response 204)) demo_client 50 JNull) =
     Inl (APIError ''Failed to list forwarders: body'') \<and>
   fst (list_forwarders 1 (const_backend (status_response 200)) demo_client 50 JNull) =
     Inr (JObj []) \<and>
   fst (ingest_log accept_all noon 1 (const_backend (status_response 201)) demo_client ''OKTA''
          (Single ''line'') (Some noon) (Some noon) None None (Some ''f'') False) =
     Inl (APIError ''Failed to ingest log: body'') \<and>
   fst (ingest_udm demo_env 5 (const_backend (status_response 302)) demo_client demo_store
          (PRef 0) True) = Inr (JObj []) \<and>
   fst (ingest_udm demo_env 5 (const_backend (status_response 400)) demo_client demo_store
          (PRef 0) True) = Inl (APIError ''Failed to ingest UDM events: body'')"
proof -
  have v: "(accept_all ''OKTA'' \<or> False) \<and> datetime_lt noon noon = Inr False"
    by (simp add: accept_all_def datetime_lt_irrefl)
  have s201: "status_code (status_response 201) \<noteq> 200" "status_code (status_response 204) \<noteq> 200"
    "status_code (status_response 200) = 200" "\<not> 400 \<le> status_code (status_response 302)"
    "400 \<le> status_code (status_response 400)"
    "json_body (status_response 200) = Some (JObj [])" "resp_text (status_response s) = ''body''"
    for s by (simp_all add: status_response_def)
  have data: "udm_response_data (status_response 302) = JObj []"
    by (simp add: udm_response_data_def status_response_def is_space_def)
  note a = status_checks [where srv = "const_backend (status_response 201)" and c = demo_client
      and display_name = "''n''" and metadata = None and upload_compression = False
      and enable_server = False and is_valid_log_type = accept_all and log_type = "''OKTA''"
      and force_log_type = False and collection_time = noon and log_entry_time = noon
      and now = noon and depth = 1 and log_message = "Single ''line''" and namespace = None
      and labels = None and fid = "''f''"]
  note b = status_checks [where srv = "const_backend (status_response 200)" and c = demo_client
      and forwarder_id = "''f''" and depth = 0 and page_size = 50 and page_token = JNull
      and kvs = "[]"]
  note c = status_checks [where srv = "const_backend (status_response 204)" and c = demo_client
      and depth = 0 and page_size = 50 and page_token = JNull]
  note d = status_checks [where srv = "const_backend (status_response 302)" and c = demo_client
      and env = demo_env and depth = 5 and h = demo_store and udm_events = "PRef 0"
      and add_missing_ids = True and body = demo_body and h' = demo_store_after]
  note e = status_checks [where srv = "const_backend (status_response 400)" and c = demo_client
      and env = demo_env and depth = 5 and h = demo_store and udm_events = "PRef 0"
      and add_missing_ids = True and body = demo_body and h' = demo_store_after]
  have 1: "fst (create_forwarder (const_backend (status_response 201)) demo_client ''n'' None False False) =
     Inl (APIError ''Failed to create forwarder: body'')"
    using a s201 by (simp add: const_backend_def)
  have 2: "fst (get_forwarder (const_backend (status_response 200)) demo_client ''f'') = Inr (JObj [])"
    using b s201 by (simp add: const_backend_def response_json_def)
  have 3: "fst (list_forwarders 1 (const_backend (status_response 204)) demo_client 50 JNull) =
     Inl (APIError ''Failed to list forwarders: body'')"
    using c s201 by (simp add: const_backend_def)
  have 4: "fst (list_forwarders 1 (const_backend (status_response 200)) demo_client 50 JNull) =
     Inr (JObj [])"
    using b s201 by (simp add: const_backend_def)
  have 5: "fst (ingest_log accept_all noon 1 (const_backend (status_response 201)) demo_client ''OKTA''
          (Single ''line'') (Some noon) (Some noon) None None (Some ''f'') False) =
     Inl (APIError ''Failed to ingest log: body'')"
    using a v s201 by (simp add: const_backend_def)
  have 6: "fst (ingest_udm demo_env 5 (const_backend (status_response 302)) demo_client demo_store
          (PRef 0) True) = Inr (JObj [])"
    using d prepare_demo s201 data by (simp add: const_backend_def)
  have 7: "fst (ingest_udm demo_env 5 (const_backend (status_response 400)) demo_client demo_store
          (PRef 0) True) = Inl (APIError ''Failed to ingest UDM events: body'')"
    using e prepare_demo s201 by (simp add: const_backend_def)
  from 1 2 3 4 5 6 7 show ?thesis by simp
qed

text \<open>
  The claim as it stands fails at the status 201: it lies in 200..299, and
  \<open>get_forwarder\<close> raises \<open>APIError\<close>.
\<close>

theorem status_checks_counterexample:
  "status_code (status_response 201) \<in> {200..299} \<and>
   fst (get_forwarder (const_backend (status_response 201)) demo_client ''f'') =
     Inl (APIError ''Failed to get forwarder: body'')"
  by (simp add: get_forwarder_def session_get_def const_backend_def status_response_def)

end
